theory Spec2Isabelle
  imports Main "HOL-Library.Sublist"
begin

section \<open>The packager of \<open>ng_package\<close> (packages/bazel/src/ng_package/packager.ts)\<close>

text \<open>
  The packager is one TypeScript function, \<open>main\<close>, with four nested helpers that share
  two variables, \<open>primaryEntryPoint\<close> and \<open>secondaryEntryPoints\<close>. The embedding
  keeps this shape: the shared variables and the storage calls made so far are a record
  that every helper takes and returns; a JavaScript exception is the left summand of the
  result.

  A JavaScript string is modelled as a \<^typ>\<open>string\<close>; a \<^typ>\<open>char\<close> stands for the UTF-16
  code unit of the same value, so the model covers the strings whose code units are below
  256. Among the ECMAScript line terminators only line feed and carriage return are such
  code units.
\<close>

subsection \<open>String operations of the JavaScript library\<close>

text \<open>\<open>xs.join(sep)\<close> on an array of strings.\<close>

fun js_join :: "string \<Rightarrow> string list \<Rightarrow> string" where
  "js_join sep [] = []"
| "js_join sep [x] = x"
| "js_join sep (x # y # ys) = x @ sep @ js_join sep (y # ys)"

text \<open>
  \<open>s.split(sep)\<close> for a string separator: the occurrences of \<open>sep\<close> are found from the
  left and do not overlap; the empty separator splits into code units.
\<close>

fun js_split :: "string \<Rightarrow> string \<Rightarrow> string list" where
  "js_split [] s = map (\<lambda>c. [c]) s"
| "js_split (d # ds) [] = [[]]"
| "js_split (d # ds) (c # cs) =
     (if prefix (d # ds) (c # cs) then [] # js_split (d # ds) (drop (length ds) cs)
      else (case js_split (d # ds) cs of
              [] \<Rightarrow> [[c]]
            | p # ps \<Rightarrow> (c # p) # ps))"

text \<open>\<open>s.startsWith(t)\<close> is \<^term>\<open>prefix t s\<close> and \<open>s.endsWith(t)\<close> is \<^term>\<open>suffix t s\<close>.\<close>

definition startsWith :: "string \<Rightarrow> string \<Rightarrow> bool" where
  "startsWith s t = prefix t s"

definition endsWith :: "string \<Rightarrow> string \<Rightarrow> bool" where
  "endsWith s t = suffix t s"

text \<open>The characters that the regular-expression atom \<open>.\<close> does not match.\<close>

definition is_line_terminator :: "char \<Rightarrow> bool" where
  "is_line_terminator c = (c = CHR 0x0A \<or> c = CHR 0x0D)"

text \<open>
  \<open>s.replace(/\..*/, '')\<close>: the regular expression has no \<open>g\<close> flag, so only the leftmost
  match is removed. It starts at the first full stop and, \<open>.*\<close> being greedy, runs up to
  the next line terminator or to the end of the string.
\<close>

fun replace_dot_rest :: "string \<Rightarrow> string" where
  "replace_dot_rest [] = []"
| "replace_dot_rest (c # cs) =
     (if c = CHR ''.'' then dropWhile (\<lambda>x. \<not> is_line_terminator x) cs
      else c # replace_dot_rest cs)"

text \<open>
  \<open>s.trim()\<close>: the white space and line terminators with a code unit below 256 are the
  controls 9 to 13, the space and the no-break space.
\<close>

definition is_js_space :: "char \<Rightarrow> bool" where
  "is_js_space c =
     (c = CHR 0x09 \<or> c = CHR 0x0A \<or> c = CHR 0x0B \<or> c = CHR 0x0C \<or> c = CHR 0x0D \<or>
      c = CHR 0x20 \<or> c = CHR 0xA0)"

definition js_trim :: "string \<Rightarrow> string" where
  "js_trim s = rev (dropWhile is_js_space (rev (dropWhile is_js_space s)))"

subsection \<open>The \<open>path\<close> module of Node.js (POSIX flavour)\<close>

text \<open>
  \<open>normalizeString\<close> of Node's \<open>path\<close> walks the segments between slashes with a stack:
  empty segments and \<open>.\<close> are skipped, \<open>..\<close> pops a segment that is not itself \<open>..\<close>,
  and is kept only where the path may climb above its root. The stack is kept reversed.
\<close>

definition normalize_step :: "bool \<Rightarrow> string list \<Rightarrow> string \<Rightarrow> string list" where
  "normalize_step allowAboveRoot stack seg =
     (if seg = [] \<or> seg = ''.'' then stack
      else if seg = ''..'' then
        (case stack of
           [] \<Rightarrow> if allowAboveRoot then [seg] else []
         | s # rest \<Rightarrow>
             if s \<noteq> ''..'' then rest
             else if allowAboveRoot then seg # stack else stack)
      else seg # stack)"

definition normalize_segments :: "bool \<Rightarrow> string \<Rightarrow> string list" where
  "normalize_segments allowAboveRoot p =
     rev (foldl (normalize_step allowAboveRoot) [] (js_split ''/'' p))"

definition normalizeString :: "bool \<Rightarrow> string \<Rightarrow> string" where
  "normalizeString allowAboveRoot p = js_join ''/'' (normalize_segments allowAboveRoot p)"

definition isAbsolute :: "string \<Rightarrow> bool" where
  "isAbsolute p = (case p of [] \<Rightarrow> False | c # _ \<Rightarrow> c = CHR ''/'')"

definition path_normalize :: "string \<Rightarrow> string" where
  "path_normalize p =
     (if p = [] then ''.''
      else
        let trailingSeparator = (last p = CHR ''/'');
            q = normalizeString (\<not> isAbsolute p) p
        in if q = [] then
             (if isAbsolute p then ''/'' else if trailingSeparator then ''./'' else ''.'')
           else (if isAbsolute p then ''/'' else []) @ q
                @ (if trailingSeparator then ''/'' else []))"

text \<open>\<open>path.join(...args)\<close>: the non-empty arguments joined by a slash, then normalized.\<close>

definition path_join :: "string list \<Rightarrow> string" where
  "path_join args =
     (let joined = filter (\<lambda>a. a \<noteq> []) args
      in if joined = [] then ''.'' else path_normalize (js_join ''/'' joined))"

text \<open>
  \<open>path.basename(p)\<close>: trailing slashes are ignored; the result is what follows the last
  remaining slash.
\<close>

definition path_basename :: "string \<Rightarrow> string" where
  "path_basename p =
     rev (takeWhile (\<lambda>c. c \<noteq> CHR ''/'') (dropWhile (\<lambda>c. c = CHR ''/'') (rev p)))"

text \<open>
  \<open>path.dirname(p)\<close>: scanning from the right and never looking at the first character,
  trailing slashes and then the last component are skipped; the path up to the slash
  found there is the result.
\<close>

definition path_dirname :: "string \<Rightarrow> string" where
  "path_dirname p =
     (case p of
        [] \<Rightarrow> ''.''
      | c # cs \<Rightarrow>
          let r = dropWhile (\<lambda>x. x \<noteq> CHR ''/'') (dropWhile (\<lambda>x. x = CHR ''/'') (rev cs))
          in if r = [] then (if c = CHR ''/'' then ''/'' else ''.'')
             else if c = CHR ''/'' \<and> length r = 1 then ''//''
             else take (length r) p)"

text \<open>
  \<open>path.resolve(p)\<close> with one argument: a relative path is taken from the working
  directory \<open>cwd\<close> (absolute on POSIX); the result is absolute, normalized and has no
  trailing slash. \<open>path.relative(from, to)\<close> resolves both paths, drops the segments
  they share from the root, climbs out of what remains of \<open>from\<close> and descends into what
  remains of \<open>to\<close>.
\<close>

definition resolve_segments :: "string \<Rightarrow> string \<Rightarrow> string list" where
  "resolve_segments cwd p =
     normalize_segments False (if isAbsolute p then p else cwd @ ''/'' @ p)"

definition path_resolve :: "string \<Rightarrow> string \<Rightarrow> string" where
  "path_resolve cwd p = ''/'' @ js_join ''/'' (resolve_segments cwd p)"

fun drop_common :: "string list \<Rightarrow> string list \<Rightarrow> string list \<times> string list" where
  "drop_common (x # xs) (y # ys) =
     (if x = y then drop_common xs ys else (x # xs, y # ys))"
| "drop_common xs ys = (xs, ys)"

definition path_relative :: "string \<Rightarrow> string \<Rightarrow> string \<Rightarrow> string" where
  "path_relative cwd from to =
     (if from = to then []
      else case drop_common (resolve_segments cwd from) (resolve_segments cwd to) of
             (up, down) \<Rightarrow> js_join ''/'' (replicate (length up) ''..'' @ down))"

subsection \<open>Regular-expression replacement\<close>

text \<open>
  The one pattern that the packager compiles from a string has no metacharacter but the
  full stop, so a compiled pattern is a list of atoms: a literal character, or \<open>.\<close>,
  which matches any character but a line terminator.
\<close>

datatype atom = Lit char | AnyChar

definition RegExp :: "string \<Rightarrow> atom list" where
  "RegExp src = map (\<lambda>c. if c = CHR ''.'' then AnyChar else Lit c) src"

fun atom_matches :: "atom \<Rightarrow> char \<Rightarrow> bool" where
  "atom_matches (Lit a) c = (a = c)"
| "atom_matches AnyChar c = (\<not> is_line_terminator c)"

fun matches_at :: "atom list \<Rightarrow> string \<Rightarrow> bool" where
  "matches_at [] s = True"
| "matches_at (a # as) [] = False"
| "matches_at (a # as) (c # cs) = (atom_matches a c \<and> matches_at as cs)"

text \<open>
  \<open>GetSubstitution\<close> of ECMAScript for a pattern without capture groups: in the
  replacement text \<open>$$\<close> stands for a dollar sign, \<open>$&\<close> for the matched text, \<open>$`\<close>
  for the text before the match and \<open>$'\<close> for the text after it; a dollar sign followed
  by anything else stands for itself.
\<close>

fun GetSubstitution :: "string \<Rightarrow> string \<Rightarrow> string \<Rightarrow> string \<Rightarrow> string" where
  "GetSubstitution matched preceding following (c # d # r) =
     (if c = CHR ''$'' \<and> d = CHR ''$'' then CHR ''$'' # GetSubstitution matched preceding following r
      else if c = CHR ''$'' \<and> d = CHR ''&'' then matched @ GetSubstitution matched preceding following r
      else if c = CHR ''$'' \<and> d = CHR 0x60 then preceding @ GetSubstitution matched preceding following r
      else if c = CHR ''$'' \<and> d = CHR 0x27 then following @ GetSubstitution matched preceding following r
      else c # GetSubstitution matched preceding following (d # r))"
| "GetSubstitution matched preceding following r = r"

text \<open>
  \<open>s.replace(re, replacement)\<close> for a pattern with the \<open>g\<close> flag: the matches are found
  from the left and do not overlap. \<open>preceding\<close> is the part of the subject already
  scanned. The packager compiles no empty pattern; the first equation is there to make
  the function total.
\<close>

fun replace_global :: "atom list \<Rightarrow> string \<Rightarrow> string \<Rightarrow> string \<Rightarrow> string" where
  "replace_global [] replacement preceding s = s"
| "replace_global (a # as) replacement preceding [] = []"
| "replace_global (a # as) replacement preceding (c # cs) =
     (if matches_at (a # as) (c # cs) then
        GetSubstitution (c # take (length as) cs) preceding (drop (length as) cs) replacement
        @ replace_global (a # as) replacement (preceding @ c # take (length as) cs)
            (drop (length as) cs)
      else c # replace_global (a # as) replacement (preceding @ [c]) cs)"

text \<open>
  \<open>s.replace(/^\/\/\/ <amd-module name=.*\/>\n/, '')\<close>: the match is anchored at the
  start of the text; as \<open>.\<close> stops at a line terminator, the line feed of the pattern is
  the first line terminator of the text, with \<open>/>\<close> right before it.
\<close>

definition strip_amd_module :: "string \<Rightarrow> string" where
  "strip_amd_module content =
     (let marker = ''/// <amd-module name='' in
      if prefix marker content then
        let rest = drop (length marker) content;
            line = takeWhile (\<lambda>c. \<not> is_line_terminator c) rest;
            tail = drop (length line) rest
        in if suffix ''/>'' line \<and> prefix ''\<newline>'' tail then drop 1 tail else content
      else content)"

subsection \<open>Exceptions\<close>

text \<open>
  The exceptions that end a run: the error that \<open>moveBundleIndex\<close> throws, the
  \<open>TypeError\<close>, \<open>RangeError\<close> and \<open>SyntaxError\<close> of the language, and the failure of a
  call of \<open>fs\<close> or \<open>shx\<close>. \<open>Unrepresentable\<close> is no exception of the code: it is the
  result where a JSON text denotes a string with a code unit above 255, which a
  \<^typ>\<open>string\<close> cannot hold.
\<close>

datatype error =
    BundleIndexError
  | TypeError
  | RangeError
  | SyntaxError
  | StorageError
  | Unrepresentable

subsection \<open>JSON values and \<open>JSON.stringify\<close>\<close>

text \<open>
  A number is represented by the text that ECMAScript's number-to-string conversion
  gives it; an object is the list of its properties in enumeration order.
\<close>

datatype json =
    JNull
  | JBool bool
  | JNumber string
  | JString string
  | JArray "json list"
  | JObject "(string \<times> json) list"

definition hex_digit :: "nat \<Rightarrow> char" where
  "hex_digit n = ''0123456789abcdef'' ! (n mod 16)"

definition quote_char :: "char \<Rightarrow> string" where
  "quote_char c =
     (if c = CHR 0x08 then [CHR 0x5C, CHR ''b'']
      else if c = CHR 0x09 then [CHR 0x5C, CHR ''t'']
      else if c = CHR 0x0A then [CHR 0x5C, CHR ''n'']
      else if c = CHR 0x0C then [CHR 0x5C, CHR ''f'']
      else if c = CHR 0x0D then [CHR 0x5C, CHR ''r'']
      else if c = CHR 0x22 then [CHR 0x5C, CHR 0x22]
      else if c = CHR 0x5C then [CHR 0x5C, CHR 0x5C]
      else if (of_char c :: nat) < 32 then
        [CHR 0x5C, CHR ''u'', CHR ''0'', CHR ''0'',
         hex_digit (of_char c div 16), hex_digit (of_char c)]
      else [c])"

definition QuoteJSONString :: "string \<Rightarrow> string" where
  "QuoteJSONString s = CHR 0x22 # concat (map quote_char s) @ [CHR 0x22]"

text \<open>
  \<open>SerializeJSONProperty\<close> with its \<open>gap\<close> (empty for \<open>JSON.stringify(v)\<close>, two spaces
  for \<open>JSON.stringify(v, null, 2)\<close>) and the current indentation.
\<close>

fun SerializeJSONProperty :: "string \<Rightarrow> string \<Rightarrow> json \<Rightarrow> string" where
  "SerializeJSONProperty gap indent JNull = ''null''"
| "SerializeJSONProperty gap indent (JBool b) = (if b then ''true'' else ''false'')"
| "SerializeJSONProperty gap indent (JNumber n) = n"
| "SerializeJSONProperty gap indent (JString s) = QuoteJSONString s"
| "SerializeJSONProperty gap indent (JArray xs) =
     (let stepback = indent;
          indent = indent @ gap;
          partial = map (SerializeJSONProperty gap indent) xs
      in if partial = [] then ''[]''
         else if gap = [] then ''['' @ js_join '','' partial @ '']''
         else ''['' @ ''\<newline>'' @ indent @ js_join ('','' @ ''\<newline>'' @ indent) partial
              @ ''\<newline>'' @ stepback @ '']'')"
| "SerializeJSONProperty gap indent (JObject kvs) =
     (let stepback = indent;
          indent = indent @ gap;
          partial = map (\<lambda>kv. QuoteJSONString (fst kv) @ '':'' @ (if gap \<noteq> [] then '' '' else [])
                               @ SerializeJSONProperty gap indent (snd kv)) kvs
      in if partial = [] then ''{}''
         else if gap = [] then ''{'' @ js_join '','' partial @ ''}''
         else ''{'' @ ''\<newline>'' @ indent @ js_join ('','' @ ''\<newline>'' @ indent) partial
              @ ''\<newline>'' @ stepback @ ''}'')"

definition JSON_stringify :: "json \<Rightarrow> nat \<Rightarrow> string" where
  "JSON_stringify v space = SerializeJSONProperty (replicate (min 10 space) CHR '' '') [] v"

text \<open>
  \<open>obj[k] = v\<close> for a key that is not an array index: an existing property keeps its
  place, a new one goes last.
\<close>

definition set_property :: "string \<Rightarrow> json \<Rightarrow> (string \<times> json) list \<Rightarrow> (string \<times> json) list" where
  "set_property k v kvs =
     (if k \<in> fst ` set kvs then map (\<lambda>kv. if fst kv = k then (k, v) else kv) kvs
      else kvs @ [(k, v)])"

subsection \<open>\<open>JSON.parse\<close>\<close>

text \<open>
  \<open>JSON.parse(text)\<close> in three steps: the text is cut into tokens, the tokens are read
  as a document (a \<^typ>\<open>json\<close> with the members of an object as they are written
  and a number as its literal), and the document is turned into the value that
  JavaScript holds (the properties of an object in enumeration order, a number as the
  text of its value).

  White space between tokens is the tab, the line feed, the carriage return and the
  space.
\<close>

datatype token =
    LBrace | RBrace | LBracket | RBracket | Colon | Comma
  | TString string | TNumber string | TTrue | TFalse | TNull

definition is_json_space :: "char \<Rightarrow> bool" where
  "is_json_space c = (c = CHR 0x09 \<or> c = CHR 0x0A \<or> c = CHR 0x0D \<or> c = CHR 0x20)"

definition is_digit :: "char \<Rightarrow> bool" where
  "is_digit c = (48 \<le> (of_char c :: nat) \<and> (of_char c :: nat) \<le> 57)"

definition is_letter :: "char \<Rightarrow> bool" where
  "is_letter c = (97 \<le> (of_char c :: nat) \<and> (of_char c :: nat) \<le> 122)"

text \<open>
  A number literal is an optional minus sign, an integer part without a leading zero
  (or a single zero), an optional fraction and an optional exponent. The lexer takes
  the longest run of characters that occur in numbers and checks it against this
  grammar; as two values never touch in a JSON text, it accepts the same texts as a
  lexer that stops where the grammar ends.
\<close>

definition is_number_char :: "char \<Rightarrow> bool" where
  "is_number_char c =
     (is_digit c \<or> c = CHR ''-'' \<or> c = CHR ''+'' \<or> c = CHR ''.'' \<or> c = CHR ''e'' \<or> c = CHR ''E'')"

definition digits_then :: "(string \<Rightarrow> bool) \<Rightarrow> string \<Rightarrow> bool" where
  "digits_then rest s = (takeWhile is_digit s \<noteq> [] \<and> rest (dropWhile is_digit s))"

definition is_exponent :: "string \<Rightarrow> bool" where
  "is_exponent s =
     (case s of
        [] \<Rightarrow> True
      | c # cs \<Rightarrow>
          (c = CHR ''e'' \<or> c = CHR ''E'') \<and>
          digits_then (\<lambda>r. r = [])
            (case cs of
               [] \<Rightarrow> []
             | d # ds \<Rightarrow> if d = CHR ''+'' \<or> d = CHR ''-'' then ds else cs))"

definition is_fraction :: "string \<Rightarrow> bool" where
  "is_fraction s =
     (case s of
        [] \<Rightarrow> True
      | c # cs \<Rightarrow> if c = CHR ''.'' then digits_then is_exponent cs else is_exponent s)"

definition is_number :: "string \<Rightarrow> bool" where
  "is_number s =
     (let unsigned = (case s of [] \<Rightarrow> [] | c # cs \<Rightarrow> if c = CHR ''-'' then cs else s)
      in case unsigned of
           [] \<Rightarrow> False
         | c # cs \<Rightarrow>
             if c = CHR ''0'' then is_fraction cs
             else is_digit c \<and> is_fraction (dropWhile is_digit cs))"

text \<open>
  Inside a string literal a backslash starts an escape: one of the eight short escapes,
  or \<open>u\<close> and four hexadecimal digits for a code unit. A control character may not
  stand there unescaped.
\<close>

definition hex_value :: "char \<Rightarrow> int option" where
  "hex_value c =
     (let n = (of_char c :: int) in
      if 48 \<le> n \<and> n \<le> 57 then Some (n - 48)
      else if 65 \<le> n \<and> n \<le> 70 then Some (n - 55)
      else if 97 \<le> n \<and> n \<le> 102 then Some (n - 87)
      else None)"

definition code_unit :: "string \<Rightarrow> int option" where
  "code_unit hex =
     (if length hex = 4 \<and> list_all (\<lambda>c. hex_value c \<noteq> None) hex
      then Some (foldl (\<lambda>n c. 16 * n + the (hex_value c)) 0 hex)
      else None)"

definition unescape :: "char \<Rightarrow> char option" where
  "unescape c =
     (if c = CHR 0x22 \<or> c = CHR 0x5C \<or> c = CHR ''/'' then Some c
      else if c = CHR ''b'' then Some (CHR 0x08)
      else if c = CHR ''f'' then Some (CHR 0x0C)
      else if c = CHR ''n'' then Some (CHR 0x0A)
      else if c = CHR ''r'' then Some (CHR 0x0D)
      else if c = CHR ''t'' then Some (CHR 0x09)
      else None)"

text \<open>
  The characters of a string literal after its opening quote: the string that they
  denote, and how many characters the literal takes after the opening quote, the closing
  quote included.
\<close>

fun scan_string :: "string \<Rightarrow> nat \<Rightarrow> string \<Rightarrow> error + (string \<times> nat)" where
  "scan_string acc n [] = Inl SyntaxError"
| "scan_string acc n (c # cs) =
     (if c = CHR 0x22 then Inr (rev acc, Suc n)
      else if c = CHR 0x5C then
        (case cs of
           [] \<Rightarrow> Inl SyntaxError
         | e # r \<Rightarrow>
             if e = CHR ''u'' then
               (case code_unit (take 4 r) of
                  None \<Rightarrow> Inl SyntaxError
                | Some u \<Rightarrow>
                    if u < 256 then scan_string (char_of u # acc) (n + 6) (drop 4 r)
                    else Inl Unrepresentable)
             else
               (case unescape e of
                  None \<Rightarrow> Inl SyntaxError
                | Some x \<Rightarrow> scan_string (x # acc) (n + 2) r))
      else if (of_char c :: nat) < 32 then Inl SyntaxError
      else scan_string (c # acc) (Suc n) cs)"

text \<open>
  The tokens of a text. The first argument counts the characters that the token before
  has already taken: they are passed over.
\<close>

definition emit_token :: "token \<Rightarrow> error + token list \<Rightarrow> error + token list" where
  "emit_token t r = (case r of Inl e \<Rightarrow> Inl e | Inr ts \<Rightarrow> Inr (t # ts))"

fun lex :: "nat \<Rightarrow> string \<Rightarrow> error + token list" where
  "lex n [] = Inr []"
| "lex (Suc n) (c # cs) = lex n cs"
| "lex 0 (c # cs) =
     (if is_json_space c then lex 0 cs
      else if c = CHR ''{'' then emit_token LBrace (lex 0 cs)
      else if c = CHR ''}'' then emit_token RBrace (lex 0 cs)
      else if c = CHR ''['' then emit_token LBracket (lex 0 cs)
      else if c = CHR '']'' then emit_token RBracket (lex 0 cs)
      else if c = CHR '':'' then emit_token Colon (lex 0 cs)
      else if c = CHR '','' then emit_token Comma (lex 0 cs)
      else if c = CHR 0x22 then
        (case scan_string [] 0 cs of
           Inl e \<Rightarrow> Inl e
         | Inr (s, taken) \<Rightarrow> emit_token (TString s) (lex taken cs))
      else if c = CHR ''-'' \<or> is_digit c then
        (let literal = c # takeWhile is_number_char cs
         in if is_number literal
            then emit_token (TNumber literal) (lex (length literal - 1) cs)
            else Inl SyntaxError)
      else if is_letter c then
        (let word = c # takeWhile is_letter cs
         in if word = ''true'' then emit_token TTrue (lex 3 cs)
            else if word = ''false'' then emit_token TFalse (lex 4 cs)
            else if word = ''null'' then emit_token TNull (lex 3 cs)
            else Inl SyntaxError)
      else Inl SyntaxError)"

text \<open>
  The values between the tokens. The parser keeps the containers that are still open on
  a stack: an array with the elements read so far, an object with the members read so
  far and the key whose value is being read. Its second argument is the value that has
  just been completed, if there is one.
\<close>

datatype frame = ArrayFrame "json list" | ObjectFrame "(string \<times> json) list" string

fun parse_tokens :: "frame list \<Rightarrow> json option \<Rightarrow> token list \<Rightarrow> error + json" where
  "parse_tokens stack None [] = Inl SyntaxError"
| "parse_tokens stack None (t # ts) =
     (case t of
        TString s \<Rightarrow> parse_tokens stack (Some (JString s)) ts
      | TNumber n \<Rightarrow> parse_tokens stack (Some (JNumber n)) ts
      | TTrue \<Rightarrow> parse_tokens stack (Some (JBool True)) ts
      | TFalse \<Rightarrow> parse_tokens stack (Some (JBool False)) ts
      | TNull \<Rightarrow> parse_tokens stack (Some JNull) ts
      | LBracket \<Rightarrow>
          (case ts of
             RBracket # r \<Rightarrow> parse_tokens stack (Some (JArray [])) r
           | _ \<Rightarrow> parse_tokens (ArrayFrame [] # stack) None ts)
      | LBrace \<Rightarrow>
          (case ts of
             RBrace # r \<Rightarrow> parse_tokens stack (Some (JObject [])) r
           | TString k # Colon # r \<Rightarrow> parse_tokens (ObjectFrame [] k # stack) None r
           | _ \<Rightarrow> Inl SyntaxError)
      | _ \<Rightarrow> Inl SyntaxError)"
| "parse_tokens stack (Some v) [] = (if stack = [] then Inr v else Inl SyntaxError)"
| "parse_tokens stack (Some v) (t # ts) =
     (case stack of
        [] \<Rightarrow> Inl SyntaxError
      | ArrayFrame xs # rest \<Rightarrow>
          (case t of
             Comma \<Rightarrow> parse_tokens (ArrayFrame (xs @ [v]) # rest) None ts
           | RBracket \<Rightarrow> parse_tokens rest (Some (JArray (xs @ [v]))) ts
           | _ \<Rightarrow> Inl SyntaxError)
      | ObjectFrame kvs k # rest \<Rightarrow>
          (case t of
             Comma \<Rightarrow>
               (case ts of
                  TString k' # Colon # r \<Rightarrow>
                    parse_tokens (ObjectFrame (kvs @ [(k, v)]) k' # rest) None r
                | _ \<Rightarrow> Inl SyntaxError)
           | RBrace \<Rightarrow> parse_tokens rest (Some (JObject (kvs @ [(k, v)]))) ts
           | _ \<Rightarrow> Inl SyntaxError))"

definition parse_document :: "string \<Rightarrow> error + json" where
  "parse_document text =
     (case lex 0 text of Inl e \<Rightarrow> Inl e | Inr tokens \<Rightarrow> parse_tokens [] None tokens)"

text \<open>
  The properties of an object. Each member of the document defines its property: a key
  that the object has already keeps its place and takes the new value, a new key goes
  last. The object then enumerates the keys that are array indexes (the decimal
  numerals below \<open>2\<^sup>3\<^sup>2 - 1\<close>, without a leading zero) in ascending order, and after
  them the other keys in the order of their creation.
\<close>

definition int_of_digits :: "string \<Rightarrow> int" where
  "int_of_digits s = foldl (\<lambda>n c. 10 * n + (of_char c - 48)) 0 s"

definition is_array_index :: "string \<Rightarrow> bool" where
  "is_array_index k =
     (k \<noteq> [] \<and> list_all is_digit k \<and> (k = ''0'' \<or> hd k \<noteq> CHR ''0'') \<and>
      int_of_digits k < 4294967295)"

definition own_properties :: "(string \<times> json) list \<Rightarrow> (string \<times> json) list" where
  "own_properties members =
     (let created = foldl (\<lambda>obj kv. set_property (fst kv) (snd kv) obj) [] members
      in sort_key (\<lambda>kv. int_of_digits (fst kv)) (filter (\<lambda>kv. is_array_index (fst kv)) created)
         @ filter (\<lambda>kv. \<not> is_array_index (fst kv)) created)"

text \<open>
  The value of a number literal is a double-precision number, and \<open>JSON.stringify\<close>
  writes it as \<open>Number::toString\<close> does. For an integer literal of at most fifteen
  digits that text is the literal itself (\<open>0\<close> for \<open>-0\<close>); for the other literals
  it is left to a parameter, as floating-point arithmetic is not modelled.
\<close>

definition number_text :: "(string \<Rightarrow> string) \<Rightarrow> string \<Rightarrow> string" where
  "number_text to_string literal =
     (let digits = (if prefix ''-'' literal then tl literal else literal)
      in if list_all is_digit digits \<and> length digits \<le> 15
         then (if digits = ''0'' then ''0'' else literal)
         else to_string literal)"

fun value_of :: "(string \<Rightarrow> string) \<Rightarrow> json \<Rightarrow> json" where
  "value_of to_string (JNumber literal) = JNumber (number_text to_string literal)"
| "value_of to_string (JArray xs) = JArray (map (value_of to_string) xs)"
| "value_of to_string (JObject members) =
     JObject (own_properties (map (\<lambda>kv. (fst kv, value_of to_string (snd kv))) members))"
| "value_of to_string v = v"

definition JSON_parse :: "(string \<Rightarrow> string) \<Rightarrow> string \<Rightarrow> error + json" where
  "JSON_parse to_string text =
     (case parse_document text of
        Inl e \<Rightarrow> Inl e
      | Inr document \<Rightarrow> Inr (value_of to_string document))"

subsection \<open>The packager's state, its parameters and its host\<close>

text \<open>
  What the code reaches outside itself is gathered in a record: the working directory
  that \<open>path.relative\<close> resolves against, \<open>fs.readFileSync\<close> (\<open>None\<close> when it throws),
  what is at an absolute path when the run starts (\<open>stat\<close>), the listing that
  \<open>shx.find('-R', dir)\<close> returns, \<open>shx.grep(pattern, file)\<close>, and the text of the
  value of a number literal where it takes floating-point arithmetic
  (\<open>number_to_string\<close>). The files are those that the run finds when it starts: what
  the run writes is recorded, not read back. The calls that change the file system are
  recorded in the order they are made; they succeed or fail by what the host had at
  their paths at the start and what the calls before them have put there.
\<close>

datatype entry = RegularFile | Directory

record host =
  cwd :: string
  readFileSync :: "string \<Rightarrow> string option"
  stat :: "string \<Rightarrow> entry option"
  find_R :: "string \<Rightarrow> string list"
  grep :: "string \<Rightarrow> string \<Rightarrow> string"
  number_to_string :: "string \<Rightarrow> string"

text \<open>The calls that change the file system, in the order they are made.\<close>

datatype storage_op =
    Mkdir string
  | Cp string string
  | Mv string string
  | WriteFile string string

text \<open>
  \<open>secondaryEntryPoints\<close> is a JavaScript \<open>Set\<close>: it iterates in insertion order, and
  \<open>add\<close> of a member changes nothing.
\<close>

record packager =
  primaryEntryPoint :: "string option"
  secondaryEntryPoints :: "string list"
  storage :: "storage_op list"

definition Set_add :: "string \<Rightarrow> string list \<Rightarrow> string list" where
  "Set_add x xs = (if x \<in> set xs then xs else xs @ [x])"

definition emit :: "storage_op list \<Rightarrow> packager \<Rightarrow> packager" where
  "emit ops st = st\<lparr>storage := storage st @ ops\<rparr>"

text \<open>
  The lines of the parameter file after destructuring; the four lists are already split
  at commas. \<open>stampData\<close> and \<open>licenseFile\<close> are \<open>None\<close> when the file has too few
  lines (\<open>undefined\<close>).
\<close>

record params =
  out :: string
  srcDir :: string
  binDir :: string
  readmeMd :: string
  fesms2015 :: "string list"
  fesms5 :: "string list"
  bundles :: "string list"
  srcs :: "string list"
  stampData :: "string option"
  licenseFile :: "string option"

text \<open>Sequencing of steps that may throw.\<close>

fun for_each :: "('x \<Rightarrow> packager \<Rightarrow> error + packager) \<Rightarrow> 'x list \<Rightarrow> packager \<Rightarrow> error + packager" where
  "for_each body [] st = Inr st"
| "for_each body (x # xs) st =
     (case body x st of Inl e \<Rightarrow> Inl e | Inr st' \<Rightarrow> for_each body xs st')"

subsection \<open>The file system under the calls of \<open>fs\<close> and \<open>shx\<close>\<close>

text \<open>
  Whether a call that changes the file system succeeds depends on what is at its paths
  at that moment. A file system says what is at an absolute, normalized path: a regular
  file, a directory or nothing; the root is a directory. Links, permissions and the
  patterns that \<open>shx\<close> expands in its arguments are not modelled, and neither is the
  content of the files.
\<close>

type_synonym file_system = "string \<Rightarrow> entry option"

definition absolute :: "string list \<Rightarrow> string" where
  "absolute segments = ''/'' @ js_join ''/'' segments"

definition lookup :: "file_system \<Rightarrow> string list \<Rightarrow> entry option" where
  "lookup fs segments = (if segments = [] then Some Directory else fs (absolute segments))"

text \<open>
  \<open>shx.mkdir('-p', dir)\<close> creates the directory and the directories above it that are
  missing. It fails for the empty path and where the path or a path above it is a
  regular file.
\<close>

definition mkdir_p_succeeds :: "string \<Rightarrow> file_system \<Rightarrow> string \<Rightarrow> bool" where
  "mkdir_p_succeeds wd fs dir =
     (dir \<noteq> [] \<and>
      list_all (\<lambda>ancestor. lookup fs ancestor \<noteq> Some RegularFile)
        (prefixes (resolve_segments wd dir)))"

definition mkdir_p :: "string \<Rightarrow> file_system \<Rightarrow> string \<Rightarrow> file_system" where
  "mkdir_p wd fs dir =
     foldl (\<lambda>fs ancestor. fs(absolute ancestor \<mapsto> Directory)) fs
       (prefixes (resolve_segments wd dir))"

text \<open>
  A regular file can be created or overwritten at a path whose parent is a directory
  and which is not a directory itself. \<open>fs.writeFileSync(p, content)\<close> creates no
  directory: it fails where the parent is missing.
\<close>

definition writable :: "file_system \<Rightarrow> string list \<Rightarrow> bool" where
  "writable fs target =
     (target \<noteq> [] \<and> lookup fs (butlast target) = Some Directory \<and>
      lookup fs target \<noteq> Some Directory)"

definition writeFileSync_succeeds :: "string \<Rightarrow> file_system \<Rightarrow> string \<Rightarrow> bool" where
  "writeFileSync_succeeds wd fs p =
     (p \<noteq> [] \<and> last p \<noteq> CHR ''/'' \<and> writable fs (resolve_segments wd p))"

text \<open>
  \<open>shx.cp(src, dest)\<close> and \<open>shx.mv(src, dest)\<close> put the source into \<open>dest\<close> under its
  base name when \<open>dest\<close> is a directory, and at \<open>dest\<close> otherwise. Without the option
  \<open>-r\<close>, \<open>cp\<close> copies regular files only; it fails where the source is missing and where
  the destination is the source or cannot be written. In the packager the source of
  \<open>mv\<close> is the file that the \<open>cp\<close> before it has written, so only regular files are
  moved; \<open>mv\<close> fails where the source is missing, and where the renaming is refused it
  leaves the file in its place without an error.
\<close>

definition is_file :: "string \<Rightarrow> file_system \<Rightarrow> string \<Rightarrow> bool" where
  "is_file wd fs p =
     (p \<noteq> [] \<and> last p \<noteq> CHR ''/'' \<and> lookup fs (resolve_segments wd p) = Some RegularFile)"

definition destination :: "string \<Rightarrow> file_system \<Rightarrow> string \<Rightarrow> string \<Rightarrow> string list" where
  "destination wd fs src dest =
     (if lookup fs (resolve_segments wd dest) = Some Directory
      then resolve_segments wd (dest @ ''/'' @ path_basename src)
      else resolve_segments wd dest)"

definition cp_succeeds :: "string \<Rightarrow> file_system \<Rightarrow> string \<Rightarrow> string \<Rightarrow> bool" where
  "cp_succeeds wd fs src dest =
     (is_file wd fs src \<and> dest \<noteq> [] \<and>
      (lookup fs (resolve_segments wd dest) = Some Directory \<or> last dest \<noteq> CHR ''/'') \<and>
      destination wd fs src dest \<noteq> resolve_segments wd src \<and>
      writable fs (destination wd fs src dest))"

definition mv_succeeds :: "string \<Rightarrow> file_system \<Rightarrow> string \<Rightarrow> string \<Rightarrow> bool" where
  "mv_succeeds wd fs src dest = (is_file wd fs src \<and> dest \<noteq> [])"

definition mv :: "string \<Rightarrow> file_system \<Rightarrow> string \<Rightarrow> string \<Rightarrow> file_system" where
  "mv wd fs src dest =
     (let target = destination wd fs src dest
      in if target = resolve_segments wd src \<or> \<not> writable fs target then fs
         else fs(absolute (resolve_segments wd src) := None, absolute target \<mapsto> RegularFile))"

text \<open>
  \<open>shx.find('-R', dir)\<close> fails for the empty path and where nothing is at the path.
\<close>

definition find_succeeds :: "string \<Rightarrow> file_system \<Rightarrow> string \<Rightarrow> bool" where
  "find_succeeds wd fs dir = (dir \<noteq> [] \<and> lookup fs (resolve_segments wd dir) \<noteq> None)"

text \<open>
  Whether a call succeeds in a file system, the file system that it leaves, and whether
  a sequence of calls succeeds, each call in the file system that the calls before it
  have left.
\<close>

fun succeeds :: "string \<Rightarrow> file_system \<Rightarrow> storage_op \<Rightarrow> bool" where
  "succeeds wd fs (Mkdir dir) = mkdir_p_succeeds wd fs dir"
| "succeeds wd fs (Cp src dest) = cp_succeeds wd fs src dest"
| "succeeds wd fs (Mv src dest) = mv_succeeds wd fs src dest"
| "succeeds wd fs (WriteFile p content) = writeFileSync_succeeds wd fs p"

fun effect :: "string \<Rightarrow> file_system \<Rightarrow> storage_op \<Rightarrow> file_system" where
  "effect wd fs (Mkdir dir) = mkdir_p wd fs dir"
| "effect wd fs (Cp src dest) = fs(absolute (destination wd fs src dest) \<mapsto> RegularFile)"
| "effect wd fs (Mv src dest) = mv wd fs src dest"
| "effect wd fs (WriteFile p content) = fs(absolute (resolve_segments wd p) \<mapsto> RegularFile)"

fun succeed :: "string \<Rightarrow> file_system \<Rightarrow> storage_op list \<Rightarrow> bool" where
  "succeed wd fs [] = True"
| "succeed wd fs (call # calls) =
     (succeeds wd fs call \<and> succeed wd (effect wd fs call) calls)"

text \<open>
  The file system at a moment of the run is what the host had when the run started,
  changed by the calls made so far. \<open>perform\<close> makes calls in the state of a run: where
  they all succeed they are added to the calls made, and otherwise the run ends with the
  exception of the call that fails.
\<close>

definition file_system_after :: "host \<Rightarrow> storage_op list \<Rightarrow> file_system" where
  "file_system_after h calls = foldl (effect (cwd h)) (stat h) calls"

definition perform :: "host \<Rightarrow> storage_op list \<Rightarrow> packager \<Rightarrow> error + packager" where
  "perform h calls st =
     (if succeed (cwd h) (file_system_after h (storage st)) calls then Inr (emit calls st)
      else Inl StorageError)"

subsection \<open>The helpers of \<open>main\<close>\<close>

text \<open>\<open>filter(ext)\<close>, lines 13 to 15.\<close>

definition filter_ext :: "string \<Rightarrow> string \<Rightarrow> bool" where
  "filter_ext ext f =
     (endsWith f ext \<and> \<not> endsWith f (''.ngfactory'' @ ext) \<and> \<not> endsWith f (''.ngsummary'' @ ext))"

text \<open>
  \<open>replaceVersionPlaceholders\<close>, lines 33 to 45. The version is the second of the
  space-separated fields of what \<open>grep\<close> returns, trimmed; when there is no second field
  \<open>trim\<close> is called on \<open>undefined\<close>.
\<close>

definition replaceVersionPlaceholders ::
    "host \<Rightarrow> params \<Rightarrow> string \<Rightarrow> string \<Rightarrow> error + string" where
  "replaceVersionPlaceholders h ps filePath content =
     (case stampData ps of
        None \<Rightarrow> Inr content
      | Some stamp \<Rightarrow>
          if stamp = [] then Inr content
          else
            (case js_split '' '' (grep h ''BUILD_SCM_VERSION'' stamp) of
               _ # field # _ \<Rightarrow>
                 let version = js_trim field
                 in Inr (replace_global (RegExp (''0.0.0'' @ ''-PLACEHOLDER'')) version []
                           content)
             | _ \<Rightarrow> Inl TypeError))"

text \<open>
  \<open>amendPackageJson\<close>, lines 54 to 69. \<open>amend_fields\<close> is lines 56 to 67, the work on
  the parsed object. Reading \<open>name\<close> from a value that is no object, or \<open>split\<close> of a
  name that is no string, throws a \<open>TypeError\<close>; \<open>Array(-1)\<close>, for a name that is
  nothing but a scope, throws a \<open>RangeError\<close>.
\<close>

definition amend_fields :: "(string \<times> json) list \<Rightarrow> error + (string \<times> json) list" where
  "amend_fields parsedPackage =
     (case map_of parsedPackage ''name'' of
        Some (JString name) \<Rightarrow>
          (case js_split ''/'' name of
             [] \<Rightarrow> Inl TypeError
           | first # others \<Rightarrow>
               let nameParts = (if startsWith first ''@'' then others else first # others)
               in if nameParts = [] then Inl RangeError
                  else
                    let rel0 = js_join ''/'' (replicate (length nameParts - 1) ''..'');
                        rel = (if rel0 = [] then ''.'' else rel0);
                        indexFile = last nameParts;
                        p1 = set_property ''main''
                               (JString (rel @ ''/bundles/'' @ js_join ''-'' nameParts @ ''.umd.js''))
                               parsedPackage;
                        p2 = set_property ''module''
                               (JString (rel @ ''/esm5/'' @ indexFile @ ''.js'')) p1;
                        p3 = set_property ''es2015''
                               (JString (rel @ ''/esm2015/'' @ indexFile @ ''.js'')) p2;
                        p4 = set_property ''typings''
                               (JString (''./'' @ indexFile @ ''.d.ts'')) p3
                    in Inr p4)
      | _ \<Rightarrow> Inl TypeError)"

definition amendPackageJson :: "host \<Rightarrow> string \<Rightarrow> string \<Rightarrow> error + string" where
  "amendPackageJson h filePath content =
     (case JSON_parse (number_to_string h) content of
        Inl e \<Rightarrow> Inl e
      | Inr (JObject parsedPackage) \<Rightarrow>
          (case amend_fields parsedPackage of
             Inl e \<Rightarrow> Inl e
           | Inr amended \<Rightarrow> Inr (JSON_stringify (JObject amended) 2))
      | Inr _ \<Rightarrow> Inl TypeError)"

text \<open>
  \<open>writeFesm\<close>, lines 71 to 84. \<^term>\<open>classify\<close> is the conditional of lines 74 to 78;
  \<open>parts.splice(-1)\<close> takes the last part out of \<open>parts\<close>, which is never empty.
  \<open>entryPointNameOf\<close> names the value that lines 72 and 73 compute.
\<close>

definition entryPointNameOf :: "string \<Rightarrow> string" where
  "entryPointNameOf file =
     (let parts = js_split ''__'' (path_basename file)
      in replace_dot_rest (js_join ''/'' parts))"

definition classify :: "string \<Rightarrow> packager \<Rightarrow> packager" where
  "classify entryPointName st =
     (if primaryEntryPoint st = None \<or> primaryEntryPoint st = Some entryPointName
      then st\<lparr>primaryEntryPoint := Some entryPointName\<rparr>
      else st\<lparr>secondaryEntryPoints := Set_add entryPointName (secondaryEntryPoints st)\<rparr>)"

definition writeFesm :: "string \<Rightarrow> string \<Rightarrow> packager \<Rightarrow> packager" where
  "writeFesm file baseDir st =
     (let parts = js_split ''__'' (path_basename file);
          entryPointName = replace_dot_rest (js_join ''/'' parts);
          st1 = classify entryPointName st;
          filename = last parts;
          parts = butlast parts;
          dir = path_join (baseDir # parts)
      in emit [Mkdir dir, Cp file dir,
               Mv (path_join [dir, path_basename file]) (path_join [dir, filename])] st1)"

text \<open>
  \<open>moveBundleIndex\<close>, lines 86 to 108. The loop has no \<open>break\<close>: every secondary entry
  point that matches assigns \<open>outputPath\<close>. An unset primary entry point is \<open>null\<close>, which
  string concatenation turns into the text \<open>null\<close>.
\<close>

definition bundle_index_ext :: "string \<Rightarrow> error + string" where
  "bundle_index_ext f =
     (if endsWith f ''.d.ts'' then Inr ''.d.ts''
      else if endsWith f ''.metadata.json'' then Inr ''.metadata.json''
      else Inl BundleIndexError)"

definition string_of_primary :: "string option \<Rightarrow> string" where
  "string_of_primary p = (case p of None \<Rightarrow> ''null'' | Some s \<Rightarrow> s)"

definition moveBundleIndex :: "host \<Rightarrow> params \<Rightarrow> packager \<Rightarrow> string \<Rightarrow> error + string" where
  "moveBundleIndex h ps st f =
     (case bundle_index_ext f of
        Inl e \<Rightarrow> Inl e
      | Inr ext \<Rightarrow>
          let relative = path_relative (cwd h) (binDir ps) f;
              outputPath =
                foldl (\<lambda>outputPath secondary.
                         if startsWith relative secondary then
                           let filename = last (js_split ''/'' secondary)
                           in Some (path_join [out ps, secondary, filename @ ext])
                         else outputPath)
                      None (secondaryEntryPoints st)
          in (case outputPath of
                None \<Rightarrow> Inr (path_join [out ps, string_of_primary (primaryEntryPoint st) @ ext])
              | Some p \<Rightarrow>
                  if p = [] then
                    Inr (path_join [out ps, string_of_primary (primaryEntryPoint st) @ ext])
                  else Inr p))"

subsection \<open>\<open>main\<close>\<close>

text \<open>
  Line 19 splits the parameter file into lines and reads a line of two apostrophes as
  the empty string; lines 20 to 26 destructure the lines and split the four lists at
  commas, dropping empty items. With fewer than eight lines one of the lists is
  \<open>undefined\<close> and its \<open>split\<close> throws before anything is written.
\<close>

definition read_args :: "string \<Rightarrow> string list" where
  "read_args text = map (\<lambda>s. if s = [CHR 0x27, CHR 0x27] then [] else s) (js_split ''\<newline>'' text)"

definition split_list :: "string \<Rightarrow> string list" where
  "split_list arg = filter (\<lambda>s. s \<noteq> []) (js_split '','' arg)"

definition destructure :: "string list \<Rightarrow> error + params" where
  "destructure args =
     (case args of
        a0 # a1 # a2 # a3 # a4 # a5 # a6 # a7 # rest \<Rightarrow>
          Inr \<lparr>out = a0, srcDir = a1, binDir = a2, readmeMd = a3,
               fesms2015 = split_list a4, fesms5 = split_list a5,
               bundles = split_list a6, srcs = split_list a7,
               stampData = (case rest of [] \<Rightarrow> None | a8 # _ \<Rightarrow> Some a8),
               licenseFile = (case rest of _ # a9 # _ \<Rightarrow> Some a9 | _ \<Rightarrow> None)\<rparr>
      | _ \<Rightarrow> Inl TypeError)"

text \<open>Lines 121 to 134: the declaration files of the build output.\<close>

definition write_declaration :: "host \<Rightarrow> params \<Rightarrow> string \<Rightarrow> packager \<Rightarrow> error + packager" where
  "write_declaration h ps f st =
     (case readFileSync h f of
        None \<Rightarrow> Inl StorageError
      | Some text \<Rightarrow>
          let content = strip_amd_module text
          in (case (if endsWith f ''.bundle_index.d.ts'' then moveBundleIndex h ps st f
                    else Inr (path_join [out ps, path_relative (cwd h) (binDir ps) f])) of
                Inl e \<Rightarrow> Inl e
              | Inr outputPath \<Rightarrow>
                  perform h [Mkdir (path_dirname outputPath), WriteFile outputPath content] st))"

text \<open>Lines 136 to 145: the files of the source tree.\<close>

definition write_source :: "host \<Rightarrow> params \<Rightarrow> string \<Rightarrow> packager \<Rightarrow> error + packager" where
  "write_source h ps src st =
     (case readFileSync h src of
        None \<Rightarrow> Inl StorageError
      | Some text \<Rightarrow>
          (case replaceVersionPlaceholders h ps src text of
             Inl e \<Rightarrow> Inl e
           | Inr content \<Rightarrow>
               (case (if path_basename src = ''package.json''
                      then amendPackageJson h src content else Inr content) of
                  Inl e \<Rightarrow> Inl e
                | Inr content \<Rightarrow>
                    let outputPath = path_join [out ps, path_relative (cwd h) (srcDir ps) src]
                    in perform h [Mkdir (path_dirname outputPath),
                                  WriteFile outputPath content] st)))"

text \<open>Lines 147 to 150: the metadata of the bundle indexes.\<close>

definition write_bundle_index_metadata ::
    "host \<Rightarrow> params \<Rightarrow> string \<Rightarrow> packager \<Rightarrow> error + packager" where
  "write_bundle_index_metadata h ps f st =
     (case moveBundleIndex h ps st f of
        Inl e \<Rightarrow> Inl e
      | Inr outputPath \<Rightarrow>
          (case readFileSync h f of
             None \<Rightarrow> Inl StorageError
           | Some text \<Rightarrow>
               (case replaceVersionPlaceholders h ps f text of
                  Inl e \<Rightarrow> Inl e
                | Inr content \<Rightarrow> perform h [WriteFile outputPath content] st)))"

text \<open>
  Lines 154 to 173: the two redirect files of a secondary entry point. They are written
  with \<open>fs.writeFileSync\<close> and no directory is created for them.
\<close>

definition redirect_metadata :: "string \<Rightarrow> string" where
  "redirect_metadata baseName =
     JSON_stringify
       (JObject [(''__symbolic'', JString ''module''),
                 (''version'', JNumber ''3''),
                 (''metadata'', JObject []),
                 (''exports'', JArray [JObject [(''from'', JString (''./'' @ baseName @ ''/'' @ baseName))]]),
                 (''flatModuleIndexRedirect'', JBool True)]) 0
     @ ''\<newline>''"

definition redirect_typings :: "string \<Rightarrow> string \<Rightarrow> string" where
  "redirect_typings licenseBanner baseName =
     licenseBanner @ '' '' @
     ''\<newline> export * from './'' @ baseName @ ''/'' @ baseName @ [CHR 0x27] @ ''\<newline>''"

definition redirect_files :: "params \<Rightarrow> string \<Rightarrow> string \<Rightarrow> storage_op list" where
  "redirect_files ps licenseBanner secondaryEntryPoint =
     (let baseName = last (js_split ''/'' secondaryEntryPoint);
          dirName = path_join (butlast (js_split ''/'' secondaryEntryPoint))
      in [WriteFile (path_join [out ps, dirName, baseName @ ''.metadata.json''])
            (redirect_metadata baseName),
          WriteFile (path_join [out ps, dirName, baseName @ ''.d.ts''])
            (redirect_typings licenseBanner baseName)])"

definition write_redirects ::
    "host \<Rightarrow> params \<Rightarrow> string \<Rightarrow> string \<Rightarrow> packager \<Rightarrow> error + packager" where
  "write_redirects h ps licenseBanner secondaryEntryPoint st =
     perform h (redirect_files ps licenseBanner secondaryEntryPoint) st"

text \<open>
  \<open>main\<close> after the parameters are read. \<open>prepare\<close> is lines 28 to 119 (the output
  directory, the README, the FESM files and the bundles): these lines read no file and
  throw nothing but the failure of one of their calls, so the calls that they make are
  known beforehand. \<open>prepare\<close> lists them with the entry points that \<open>writeFesm\<close> finds,
  and \<open>package\<close>, which is lines 28 to 175, makes them: it ends with the exception where
  one of them fails. \<open>read_license\<close> is line 152. The result of \<open>package\<close> is the state
  when \<open>main\<close> returns 0, or the exception that ends it.
\<close>

definition prepare :: "params \<Rightarrow> packager" where
  "prepare ps =
     (let st = emit [Mkdir (out ps)]
                 \<lparr>primaryEntryPoint = None, secondaryEntryPoints = [], storage = []\<rparr>;
          st = (if readmeMd ps \<noteq> []
                then emit [Cp (readmeMd ps) (path_join [out ps, ''README.md''])] st
                else st);
          st = foldl (\<lambda>st fesm2015. writeFesm fesm2015 (path_join [out ps, ''esm2015'']) st)
                 st (fesms2015 ps);
          st = foldl (\<lambda>st fesm5. writeFesm fesm5 (path_join [out ps, ''esm5'']) st)
                 st (fesms5 ps);
          bundlesDir = path_join [out ps, ''bundles'']
      in emit (Mkdir bundlesDir # map (\<lambda>bundle. Cp bundle bundlesDir) (bundles ps)) st)"

definition read_license :: "host \<Rightarrow> params \<Rightarrow> error + string" where
  "read_license h ps =
     (case licenseFile ps of
        None \<Rightarrow> Inr []
      | Some file \<Rightarrow>
          if file = [] then Inr []
          else (case readFileSync h file of
                  None \<Rightarrow> Inl StorageError
                | Some licenseBanner \<Rightarrow> Inr licenseBanner))"

definition package :: "host \<Rightarrow> params \<Rightarrow> error + packager" where
  "package h ps =
     (if \<not> succeed (cwd h) (stat h) (storage (prepare ps)) then Inl StorageError
      else if \<not> find_succeeds (cwd h) (file_system_after h (storage (prepare ps))) (binDir ps)
      then Inl StorageError
      else
        let allsrcs = find_R h (binDir ps)
        in (case for_each (write_declaration h ps) (filter (filter_ext ''.d.ts'') allsrcs)
                  (prepare ps) of
             Inl e \<Rightarrow> Inl e
           | Inr st \<Rightarrow>
          (case for_each (write_source h ps) (srcs ps) st of
             Inl e \<Rightarrow> Inl e
           | Inr st \<Rightarrow>
          (case for_each (write_bundle_index_metadata h ps)
                  (filter (filter_ext ''.bundle_index.metadata.json'') allsrcs) st of
             Inl e \<Rightarrow> Inl e
           | Inr st \<Rightarrow>
          (case read_license h ps of
             Inl e \<Rightarrow> Inl e
           | Inr licenseBanner \<Rightarrow>
               for_each (write_redirects h ps licenseBanner) (secondaryEntryPoints st) st)))))"

definition main :: "host \<Rightarrow> string list \<Rightarrow> error + packager" where
  "main h argv =
     (case argv of
        [] \<Rightarrow> Inl TypeError
      | file # _ \<Rightarrow>
          (case readFileSync h file of
             None \<Rightarrow> Inl StorageError
           | Some text \<Rightarrow>
               (case destructure (read_args text) of
                  Inl e \<Rightarrow> Inl e
                | Inr ps \<Rightarrow> package h ps)))"

text \<open>
  A sequence of \<open>writeFesm\<close> calls, each with its file and its base directory, as lines
  114 and 115 make them.
\<close>

definition writeFesm_all :: "(string \<times> string) list \<Rightarrow> packager \<Rightarrow> packager" where
  "writeFesm_all calls st = foldl (\<lambda>st call. writeFesm (fst call) (snd call) st) st calls"

subsection \<open>Concrete inputs and the specification's reading of some operations\<close>

text \<open>
  A host with the working directory \<open>/work\<close> and the files of a list, each in its
  directory, and parameters with the directories \<open>out\<close>, \<open>src\<close> and \<open>bin\<close> and
  nothing else.
\<close>

definition tree :: "string \<Rightarrow> string list \<Rightarrow> file_system" where
  "tree wd paths p =
     (if p \<in> set (map (path_resolve wd) paths) then Some RegularFile
      else if p \<in> set (map absolute
                        (concat (map (\<lambda>f. prefixes (resolve_segments wd f)) (wd # paths))))
      then Some Directory
      else None)"

definition example_host :: "(string \<times> string) list \<Rightarrow> host" where
  "example_host files =
     \<lparr>cwd = ''/work'', readFileSync = map_of files,
      stat = tree ''/work'' (map fst files),
      find_R = (\<lambda>dir. filter (\<lambda>f. prefix (dir @ ''/'') f) (map fst files)),
      grep = (\<lambda>pattern file. ''BUILD_SCM_VERSION 1.2.3\<newline>''),
      number_to_string = (\<lambda>literal. literal)\<rparr>"

definition example_params :: params where
  "example_params =
     \<lparr>out = ''out'', srcDir = ''src'', binDir = ''bin'', readmeMd = [],
      fesms2015 = [], fesms5 = [], bundles = [], srcs = [],
      stampData = None, licenseFile = None\<rparr>"

text \<open>
  The relocation of a bundle index as the specification words it: the first secondary
  entry point, in insertion order, that is a prefix of the relative path decides.
\<close>

definition first_match_destination ::
    "string \<Rightarrow> string option \<Rightarrow> string list \<Rightarrow> string \<Rightarrow> string \<Rightarrow> string" where
  "first_match_destination outDir primary secondaries relative ext =
     (case find (\<lambda>name. prefix name relative) secondaries of
        Some name \<Rightarrow> path_join [outDir, name, last (js_split ''/'' name) @ ext]
      | None \<Rightarrow> path_join [outDir, string_of_primary primary @ ext])"

text \<open>
  The state after \<open>writeFesm\<close> has seen \<open>core.js\<close>, \<open>a.js\<close> and \<open>a__b.js\<close>: its secondary
  entry points are \<open>a\<close> and \<open>a/b\<close>, one a prefix of the other.
\<close>

definition nested_state :: packager where
  "nested_state =
     writeFesm_all [(''bin/core.js'', ''out/esm5''), (''bin/a.js'', ''out/esm5''),
                    (''bin/a__b.js'', ''out/esm5'')]
       \<lparr>primaryEntryPoint = None, secondaryEntryPoints = [], storage = []\<rparr>"

text \<open>
  The entry-point name as the specification words it: the base name split at double
  underscores, the segments joined with slashes, and everything from the first full stop
  onward removed.
\<close>

definition strip_extension :: "string \<Rightarrow> string" where
  "strip_extension s = takeWhile (\<lambda>c. c \<noteq> CHR ''.'') s"

definition entryPointNameOf_spec :: "string \<Rightarrow> string" where
  "entryPointNameOf_spec file =
     strip_extension (js_join ''/'' (js_split ''__'' (path_basename file)))"

text \<open>
  A descriptor with a property whose key is an array index, a \<open>main\<close> of its own and
  nested objects and arrays, and the text that \<open>amendPackageJson\<close> returns for it.
\<close>

definition nested_descriptor :: string where
  \<open>nested_descriptor =
     ''{"name":"@angular/common/http","version":"0.0.0-PLACEHOLDER","main":"index.js",'' @
     ''"peerDependencies":{"rxjs":"^5.5.0","nested":{"deep":[1,{"x":null}]}},'' @
     ''"files":["a","b"],"7":true,"sideEffects":false}''\<close>

definition nested_amended :: string where
  \<open>nested_amended =
     ''{\<newline>'' @
     ''  "7": true,\<newline>'' @
     ''  "name": "@angular/common/http",\<newline>'' @
     ''  "version": "0.0.0-PLACEHOLDER",\<newline>'' @
     ''  "main": "../bundles/common-http.umd.js",\<newline>'' @
     ''  "peerDependencies": {\<newline>'' @
     ''    "rxjs": "^5.5.0",\<newline>'' @
     ''    "nested": {\<newline>'' @
     ''      "deep": [\<newline>'' @
     ''        1,\<newline>'' @
     ''        {\<newline>'' @
     ''          "x": null\<newline>'' @
     ''        }\<newline>'' @
     ''      ]\<newline>'' @
     ''    }\<newline>'' @
     ''  },\<newline>'' @
     ''  "files": [\<newline>'' @
     ''    "a",\<newline>'' @
     ''    "b"\<newline>'' @
     ''  ],\<newline>'' @
     ''  "sideEffects": false,\<newline>'' @
     ''  "module": "../esm5/http.js",\<newline>'' @
     ''  "es2015": "../esm2015/http.js",\<newline>'' @
     ''  "typings": "./http.d.ts"\<newline>'' @
     ''}''\<close>

text \<open>
  A host whose stamp file holds one version, and parameters that name a stamp file.
\<close>

definition stamp_host :: "string \<Rightarrow> host" where
  "stamp_host version =
     (example_host [])\<lparr>grep := (\<lambda>pattern file. ''BUILD_SCM_VERSION '' @ version @ ''\<newline>'')\<rparr>"

definition stamped_params :: params where
  "stamped_params = example_params\<lparr>stampData := Some ''stable-status.txt''\<rparr>"

text \<open>
  Whether a pattern matches somewhere in a text, and whether every match of a pattern in
  a text is an occurrence of a literal.
\<close>

fun has_match :: "atom list \<Rightarrow> string \<Rightarrow> bool" where
  "has_match re [] = matches_at re []"
| "has_match re (c # cs) = (matches_at re (c # cs) \<or> has_match re cs)"

fun matches_are_literal :: "atom list \<Rightarrow> string \<Rightarrow> string \<Rightarrow> bool" where
  "matches_are_literal re literal [] = (matches_at re [] \<longrightarrow> prefix literal [])"
| "matches_are_literal re literal (c # cs) =
     ((matches_at re (c # cs) \<longrightarrow> prefix literal (c # cs)) \<and> matches_are_literal re literal cs)"

text \<open>
  The artifacts of the build output as the specification sorts them: a Metadata artifact
  ends in \<open>.metadata.json\<close>, a Declaration artifact in \<open>.d.ts\<close>; neither is a bundle
  index or a factory or summary file. \<open>without_metadata\<close> is a host whose listing of the
  build output leaves the Metadata artifacts out.
\<close>

definition is_metadata_artifact :: "string \<Rightarrow> bool" where
  "is_metadata_artifact f =
     (filter_ext ''.metadata.json'' f \<and> \<not> endsWith f ''.bundle_index.metadata.json'')"

definition is_declaration_artifact :: "string \<Rightarrow> bool" where
  "is_declaration_artifact f = (filter_ext ''.d.ts'' f \<and> \<not> endsWith f ''.bundle_index.d.ts'')"

definition without_metadata :: "host \<Rightarrow> host" where
  "without_metadata h =
     h\<lparr>find_R := (\<lambda>dir. filter (\<lambda>f. \<not> is_metadata_artifact f) (find_R h dir))\<rparr>"

text \<open>
  Reading a declaration file back: its lines, and those that are re-export statements.
\<close>

definition is_reexport_line :: "string \<Rightarrow> bool" where
  "is_reexport_line l = prefix ''export * from'' (dropWhile (\<lambda>c. c = CHR '' '') l)"

definition reexport_lines :: "string \<Rightarrow> string list" where
  "reexport_lines content = filter is_reexport_line (js_split ''\<newline>'' content)"

text \<open>
  A build output with the FESM files of a primary entry point \<open>core\<close> and of a
  secondary entry point \<open>testing/foo\<close>, the bundle index of the latter, a license file
  and a parameter file; the parameters that name them; and the same build output without
  the bundle index, so that nothing creates the directory \<open>out/testing\<close>.
\<close>

definition redirect_host :: host where
  "redirect_host =
     example_host [(''bin/core.js'', ''export const core = 1;''),
                   (''bin/testing__foo.js'', ''export const foo = 2;''),
                   (''bin/testing/foo/foo.bundle_index.d.ts'', ''export declare const foo = 2;''),
                   (''LICENSE'', ''/** @license MIT */\<newline>''),
                   (''ng_package.params'',
                    ''out\<newline>src\<newline>bin\<newline>'' @ [CHR 0x27, CHR 0x27] @ ''\<newline>'' @ [CHR 0x27, CHR 0x27]
                    @ ''\<newline>bin/core.js,bin/testing__foo.js\<newline>'' @ [CHR 0x27, CHR 0x27] @ ''\<newline>''
                    @ [CHR 0x27, CHR 0x27] @ ''\<newline>'' @ [CHR 0x27, CHR 0x27] @ ''\<newline>LICENSE'')]"

definition redirect_params :: params where
  "redirect_params =
     example_params\<lparr>fesms5 := [''bin/core.js'', ''bin/testing__foo.js''],
                    licenseFile := Some ''LICENSE''\<rparr>"

definition fresh_host :: host where
  "fresh_host =
     example_host [(''bin/core.js'', ''export const core = 1;''),
                   (''bin/testing__foo.js'', ''export const foo = 2;''),
                   (''LICENSE'', ''/** @license MIT */\<newline>'')]"

section \<open>Properties\<close>

subsection \<open>Entry-point resolution\<close>

lemma emit_fields [simp]:
  "primaryEntryPoint (emit ops st) = primaryEntryPoint st"
  "secondaryEntryPoints (emit ops st) = secondaryEntryPoints st"
  "storage (emit ops st) = storage st @ ops"
  by (simp_all add: emit_def)

lemma primary_writeFesm:
  "primaryEntryPoint (writeFesm file baseDir st) =
     (if primaryEntryPoint st = None then Some (entryPointNameOf file) else primaryEntryPoint st)"
  by (auto simp: writeFesm_def classify_def emit_def entryPointNameOf_def Let_def)

lemma secondary_writeFesm:
  "secondaryEntryPoints (writeFesm file baseDir st) =
     (if primaryEntryPoint st = None \<or> primaryEntryPoint st = Some (entryPointNameOf file)
      then secondaryEntryPoints st
      else Set_add (entryPointNameOf file) (secondaryEntryPoints st))"
  by (auto simp: writeFesm_def classify_def emit_def entryPointNameOf_def Let_def)

lemma first_occurrences_snoc:
  "rev (remdups (rev (ys @ [n]))) = Set_add n (rev (remdups (rev ys)))"
  by (simp add: Set_add_def)

lemma Set_add_distinct: "distinct xs \<Longrightarrow> distinct (Set_add x xs)"
  by (simp add: Set_add_def)

lemma set_Set_add: "set (Set_add x xs) = insert x (set xs)"
  by (auto simp: Set_add_def)

lemma writeFesm_all_resolution:
  assumes "primaryEntryPoint st0 = None" and "secondaryEntryPoints st0 = []" and "calls \<noteq> []"
  shows "primaryEntryPoint (writeFesm_all calls st0) = Some (entryPointNameOf (fst (hd calls)))
       \<and> secondaryEntryPoints (writeFesm_all calls st0)
           = rev (remdups (rev (filter (\<lambda>n. n \<noteq> entryPointNameOf (fst (hd calls)))
                                   (map (\<lambda>call. entryPointNameOf (fst call)) calls))))"
  using assms(3) unfolding writeFesm_all_def
proof (induction calls rule: rev_induct)
  case Nil
  then show ?case by simp
next
  case (snoc x calls)
  show ?case
  proof (cases "calls = []")
    case True
    then show ?thesis
      using assms(1,2) by (simp add: primary_writeFesm secondary_writeFesm)
  next
    case False
    then show ?thesis
      using snoc.IH [OF False]
      by (simp add: primary_writeFesm secondary_writeFesm first_occurrences_snoc
               del: rev_append remdups.simps rev.simps)
  qed
qed

lemma writeFesm_keeps_primary:
  "\<forall>st file baseDir p. primaryEntryPoint st = Some p \<longrightarrow>
     primaryEntryPoint (writeFesm file baseDir st) = Some p \<and>
     (p \<notin> set (secondaryEntryPoints st) \<longrightarrow>
        p \<notin> set (secondaryEntryPoints (writeFesm file baseDir st)))"
  by (auto simp: primary_writeFesm secondary_writeFesm set_Set_add)

lemma writeFesm_keeps_distinct:
  "\<forall>st file baseDir. distinct (secondaryEntryPoints st) \<longrightarrow>
     distinct (secondaryEntryPoints (writeFesm file baseDir st))"
  by (simp add: secondary_writeFesm Set_add_distinct)

lemma prepare_writeFesm_all:
  "\<exists>st0. primaryEntryPoint st0 = None \<and> secondaryEntryPoints st0 = [] \<and>
     primaryEntryPoint (prepare ps)
       = primaryEntryPoint (writeFesm_all
           (map (\<lambda>f. (f, path_join [out ps, ''esm2015''])) (fesms2015 ps)
            @ map (\<lambda>f. (f, path_join [out ps, ''esm5''])) (fesms5 ps)) st0) \<and>
     secondaryEntryPoints (prepare ps)
       = secondaryEntryPoints (writeFesm_all
           (map (\<lambda>f. (f, path_join [out ps, ''esm2015''])) (fesms2015 ps)
            @ map (\<lambda>f. (f, path_join [out ps, ''esm5''])) (fesms5 ps)) st0)"
proof -
  let ?st0 = "if readmeMd ps \<noteq> []
              then emit [Cp (readmeMd ps) (path_join [out ps, ''README.md''])]
                     (emit [Mkdir (out ps)]
                        \<lparr>primaryEntryPoint = None, secondaryEntryPoints = [], storage = []\<rparr>)
              else emit [Mkdir (out ps)]
                     \<lparr>primaryEntryPoint = None, secondaryEntryPoints = [], storage = []\<rparr>"
  have "primaryEntryPoint ?st0 = None" "secondaryEntryPoints ?st0 = []"
    by (simp_all add: emit_def)
  moreover have "prepare ps
      = emit (Mkdir (path_join [out ps, ''bundles''])
              # map (\<lambda>bundle. Cp bundle (path_join [out ps, ''bundles''])) (bundles ps))
          (writeFesm_all
             (map (\<lambda>f. (f, path_join [out ps, ''esm2015''])) (fesms2015 ps)
              @ map (\<lambda>f. (f, path_join [out ps, ''esm5''])) (fesms5 ps)) ?st0)"
    by (simp add: prepare_def writeFesm_all_def Let_def foldl_map)
  ultimately show ?thesis
    by (metis emit_fields(1) emit_fields(2))
qed

text \<open>
  Claim C1. Let \<open>writeFesm\<close> be called on a sequence of files, starting with no primary
  entry point and no secondary one. The name of the first file becomes the primary entry
  point. The secondary entry points are the names that differ from it, each once, in the
  order of their first occurrence; so the primary name is not among them and they have
  no duplicates. In any state, a call of \<open>writeFesm\<close> leaves a primary entry point that is
  set as it is, does not add it to the secondary entry points, and keeps these free of
  duplicates. In \<open>main\<close> the sequence is the ES2015 files followed by the ES5 files.
\<close>

theorem writeFesm_entry_points:
  assumes "primaryEntryPoint st0 = None" and "secondaryEntryPoints st0 = []"
  shows
    "(calls = [] \<longrightarrow> primaryEntryPoint (writeFesm_all calls st0) = None) \<and>
     (calls \<noteq> [] \<longrightarrow>
        primaryEntryPoint (writeFesm_all calls st0) = Some (entryPointNameOf (fst (hd calls))) \<and>
        secondaryEntryPoints (writeFesm_all calls st0)
          = rev (remdups (rev (filter (\<lambda>n. n \<noteq> entryPointNameOf (fst (hd calls)))
                                 (map (\<lambda>call. entryPointNameOf (fst call)) calls)))) \<and>
        set (secondaryEntryPoints (writeFesm_all calls st0))
          = entryPointNameOf ` fst ` set calls - {entryPointNameOf (fst (hd calls))}) \<and>
     distinct (secondaryEntryPoints (writeFesm_all calls st0)) \<and>
     (\<forall>p. primaryEntryPoint (writeFesm_all calls st0) = Some p \<longrightarrow>
          p \<notin> set (secondaryEntryPoints (writeFesm_all calls st0))) \<and>
     (\<forall>st file baseDir p. primaryEntryPoint st = Some p \<longrightarrow>
          primaryEntryPoint (writeFesm file baseDir st) = Some p \<and>
          (p \<notin> set (secondaryEntryPoints st) \<longrightarrow>
             p \<notin> set (secondaryEntryPoints (writeFesm file baseDir st)))) \<and>
     (\<forall>st file baseDir. distinct (secondaryEntryPoints st) \<longrightarrow>
          distinct (secondaryEntryPoints (writeFesm file baseDir st))) \<and>
     (\<forall>ps. fesms2015 ps @ fesms5 ps \<noteq> [] \<longrightarrow>
        primaryEntryPoint (prepare ps)
          = Some (entryPointNameOf (hd (fesms2015 ps @ fesms5 ps))) \<and>
        secondaryEntryPoints (prepare ps)
          = rev (remdups (rev (filter (\<lambda>n. n \<noteq> entryPointNameOf (hd (fesms2015 ps @ fesms5 ps)))
                                 (map entryPointNameOf (fesms2015 ps @ fesms5 ps))))))"
proof -
  have run: "\<forall>ps. fesms2015 ps @ fesms5 ps \<noteq> [] \<longrightarrow>
        primaryEntryPoint (prepare ps)
          = Some (entryPointNameOf (hd (fesms2015 ps @ fesms5 ps))) \<and>
        secondaryEntryPoints (prepare ps)
          = rev (remdups (rev (filter (\<lambda>n. n \<noteq> entryPointNameOf (hd (fesms2015 ps @ fesms5 ps)))
                                 (map entryPointNameOf (fesms2015 ps @ fesms5 ps)))))"
  proof (intro allI impI)
    fix ps :: params
    assume ne: "fesms2015 ps @ fesms5 ps \<noteq> []"
    let ?calls = "map (\<lambda>f. (f, path_join [out ps, ''esm2015''])) (fesms2015 ps)
                  @ map (\<lambda>f. (f, path_join [out ps, ''esm5''])) (fesms5 ps)"
    obtain s0 where s0: "primaryEntryPoint s0 = None" "secondaryEntryPoints s0 = []"
      "primaryEntryPoint (prepare ps) = primaryEntryPoint (writeFesm_all ?calls s0)"
      "secondaryEntryPoints (prepare ps) = secondaryEntryPoints (writeFesm_all ?calls s0)"
      using prepare_writeFesm_all [of ps] by blast
    have c: "?calls \<noteq> []" using ne by simp
    have h: "fst (hd ?calls) = hd (fesms2015 ps @ fesms5 ps)"
      using ne by (cases "fesms2015 ps") (simp_all add: hd_map)
    have m: "map (\<lambda>call. entryPointNameOf (fst call)) ?calls
        = map entryPointNameOf (fesms2015 ps @ fesms5 ps)"
      by (simp add: comp_def)
    show "primaryEntryPoint (prepare ps)
          = Some (entryPointNameOf (hd (fesms2015 ps @ fesms5 ps))) \<and>
        secondaryEntryPoints (prepare ps)
          = rev (remdups (rev (filter (\<lambda>n. n \<noteq> entryPointNameOf (hd (fesms2015 ps @ fesms5 ps)))
                                 (map entryPointNameOf (fesms2015 ps @ fesms5 ps)))))"
      using writeFesm_all_resolution [OF s0(1,2) c] unfolding h m s0(3,4) by blast
  qed
  show ?thesis
  proof (cases "calls = []")
    case True
    with assms writeFesm_keeps_primary writeFesm_keeps_distinct run show ?thesis
      by (simp add: writeFesm_all_def)
  next
    case False
    note r = writeFesm_all_resolution [OF assms False]
    have s: "set (secondaryEntryPoints (writeFesm_all calls st0))
            = entryPointNameOf ` fst ` set calls - {entryPointNameOf (fst (hd calls))}"
      using r by (auto simp: image_iff)
    have d: "distinct (secondaryEntryPoints (writeFesm_all calls st0))"
      using r by simp
    have n: "\<forall>p. primaryEntryPoint (writeFesm_all calls st0) = Some p \<longrightarrow>
            p \<notin> set (secondaryEntryPoints (writeFesm_all calls st0))"
      using r by simp
    from False r s d n writeFesm_keeps_primary writeFesm_keeps_distinct run show ?thesis
      by blast
  qed
qed

theorem writeFesm_entry_points_witness:
  "primaryEntryPoint (writeFesm_all [(''bin/core.js'', ''out/esm2015''),
        (''bin/core__testing.js'', ''out/esm2015''), (''bin/core.js'', ''out/esm5''),
        (''bin/core__testing.js'', ''out/esm5'')]
       \<lparr>primaryEntryPoint = None, secondaryEntryPoints = [], storage = []\<rparr>) = Some ''core'' \<and>
   secondaryEntryPoints (writeFesm_all [(''bin/core.js'', ''out/esm2015''),
        (''bin/core__testing.js'', ''out/esm2015''), (''bin/core.js'', ''out/esm5''),
        (''bin/core__testing.js'', ''out/esm5'')]
       \<lparr>primaryEntryPoint = None, secondaryEntryPoints = [], storage = []\<rparr>) = [''core/testing'']"
  using writeFesm_entry_points
          [of "\<lparr>primaryEntryPoint = None, secondaryEntryPoints = [], storage = []\<rparr>"
              "[(''bin/core.js'', ''out/esm2015''), (''bin/core__testing.js'', ''out/esm2015''),
                (''bin/core.js'', ''out/esm5''), (''bin/core__testing.js'', ''out/esm5'')]"]
  by (simp add: entryPointNameOf_def path_basename_def is_line_terminator_def)

subsection \<open>Facts about the path functions\<close>

lemma js_split_not_Nil: "sep \<noteq> [] \<Longrightarrow> js_split sep s \<noteq> []"
  by (induction sep s rule: js_split.induct) (auto split: list.splits)

lemma js_join_snoc:
  "js_join sep (xs @ [x]) = (if xs = [] then x else js_join sep xs @ sep @ x)"
  by (induction sep xs rule: js_join.induct) auto

lemma path_normalize_not_Nil: "path_normalize p \<noteq> []"
  by (auto simp: path_normalize_def Let_def)

lemma path_join_not_Nil: "path_join args \<noteq> []"
  by (simp add: path_join_def Let_def path_normalize_not_Nil)

lemma last_match_fold:
  "foldl (\<lambda>acc s. if P s then Some (g s) else acc) acc0 xs =
     (if filter P xs = [] then acc0 else Some (g (last (filter P xs))))"
  by (induction xs rule: rev_induct) auto

lemma js_split_slash_append:
  "CHR ''/'' \<notin> set x \<Longrightarrow> js_split ''/'' (p @ CHR ''/'' # x) = js_split ''/'' p @ [x]"
proof (induction p)
  case Nil
  have "js_split ''/'' x = [x]" using Nil
    by (induction x) (auto split: list.splits)
  then show ?case by simp
next
  case (Cons c p)
  then show ?case
    by (auto split: list.splits simp: js_split_not_Nil)
qed


lemma js_split_no_sep: "CHR ''/'' \<notin> set x \<Longrightarrow> js_split ''/'' x = [x]"
  by (induction x) (auto split: list.splits)

lemma normalize_segments_snoc:
  assumes "x \<noteq> []" "x \<noteq> ''.''" "x \<noteq> ''..''" "CHR ''/'' \<notin> set x"
  shows "normalize_segments allow (p @ CHR ''/'' # x) = normalize_segments allow p @ [x]"
  using assms by (simp add: normalize_segments_def js_split_slash_append normalize_step_def)

lemma normalize_segments_single:
  assumes "x \<noteq> []" "x \<noteq> ''.''" "x \<noteq> ''..''" "CHR ''/'' \<notin> set x"
  shows "normalize_segments allow x = [x]"
  using assms by (simp add: normalize_segments_def js_split_no_sep normalize_step_def)

lemma path_normalize_last_segment:
  assumes "x \<noteq> []" "x \<noteq> ''.''" "x \<noteq> ''..''" "CHR ''/'' \<notin> set x"
  shows "\<exists>d. path_normalize (p @ ''/'' @ x) = d @ x \<and> (d = [] \<or> last d = CHR ''/'')"
proof -
  let ?p = "p @ ''/'' @ x"
  let ?segs = "normalize_segments (\<not> isAbsolute ?p) p"
  have l: "last ?p \<noteq> CHR ''/''" using assms by (cases x rule: rev_cases) auto
  have q: "normalizeString (\<not> isAbsolute ?p) ?p
      = (if ?segs = [] then x else js_join ''/'' ?segs @ ''/'' @ x)"
    using assms by (simp add: normalizeString_def normalize_segments_snoc js_join_snoc)
  show ?thesis
  proof (cases "?segs = []")
    case True
    then have "path_normalize ?p = (if isAbsolute ?p then ''/'' else []) @ x"
      using q l assms(1) by (simp add: path_normalize_def Let_def)
    then show ?thesis by auto
  next
    case False
    then have "path_normalize ?p
        = ((if isAbsolute ?p then ''/'' else []) @ js_join ''/'' ?segs @ ''/'') @ x"
      using q l assms(1) by (simp add: path_normalize_def Let_def)
    then show ?thesis by (metis last_snoc append_assoc last_appendR list.distinct(1) last.simps)
  qed
qed

lemma path_normalize_single:
  assumes "x \<noteq> []" "x \<noteq> ''.''" "x \<noteq> ''..''" "CHR ''/'' \<notin> set x"
  shows "path_normalize x = x"
proof -
  have "\<not> isAbsolute x" using assms by (cases x) (auto simp: isAbsolute_def)
  moreover have "last x \<noteq> CHR ''/''" using assms by (cases x rule: rev_cases) auto
  ultimately show ?thesis
    using assms by (simp add: path_normalize_def normalizeString_def normalize_segments_single)
qed

lemma path_join_last_segment:
  assumes "x \<noteq> []" "x \<noteq> ''.''" "x \<noteq> ''..''" "CHR ''/'' \<notin> set x"
  shows "\<exists>d. path_join (args @ [x]) = d @ x \<and> (d = [] \<or> last d = CHR ''/'')"
proof (cases "filter (\<lambda>a. a \<noteq> []) args = []")
  case True
  then show ?thesis
    using assms by (simp add: path_join_def path_normalize_single)
next
  case False
  then have "path_join (args @ [x])
      = path_normalize (js_join ''/'' (filter (\<lambda>a. a \<noteq> []) args) @ ''/'' @ x)"
    using assms(1) by (simp add: path_join_def js_join_snoc)
  then show ?thesis
    using path_normalize_last_segment [OF assms] by simp
qed

lemma path_basename_last_segment:
  assumes "x \<noteq> []" "CHR ''/'' \<notin> set x" "d = [] \<or> last d = CHR ''/''"
  shows "path_basename (d @ x) = x"
proof -
  have 1: "dropWhile (\<lambda>c. c = CHR ''/'') (rev x @ rev d) = rev x @ rev d"
    using assms(1,2) by (cases x rule: rev_cases) auto
  have 2: "takeWhile (\<lambda>c. c \<noteq> CHR ''/'') (rev x @ rev d) = rev x"
  proof (cases d rule: rev_cases)
    case Nil
    then show ?thesis using assms(2) by (auto simp: takeWhile_eq_all_conv)
  next
    case (snoc ys y)
    then show ?thesis using assms(2,3) by (auto simp: takeWhile_append2 takeWhile_tail)
  qed
  show ?thesis by (simp add: path_basename_def 1 2)
qed

lemma path_basename_join:
  assumes "x \<noteq> []" "x \<noteq> ''.''" "x \<noteq> ''..''" "CHR ''/'' \<notin> set x"
  shows "path_basename (path_join (args @ [x])) = x"
proof -
  obtain d where d: "path_join (args @ [x]) = d @ x" "d = [] \<or> last d = CHR ''/''"
    using path_join_last_segment [OF assms, of args] by blast
  show ?thesis
    unfolding d(1) by (rule path_basename_last_segment [OF assms(1,4) d(2)])
qed

lemma suffix_not_both:
  assumes "suffix (xs @ [a]) s" "suffix (ys @ [b]) s" shows "a = b"
  using assms by (auto simp: suffix_def)

lemma declaration_not_metadata: "endsWith f ''.d.ts'' \<Longrightarrow> \<not> endsWith f ''.metadata.json''"
  unfolding endsWith_def
  using suffix_not_both [of "''.d.t''" "CHR ''s''" f "''.metadata.jso''" "CHR ''n''"] by auto

subsection \<open>Relocation of bundle indexes\<close>

lemma js_split_segments: "seg \<in> set (js_split ''/'' s) \<Longrightarrow> CHR ''/'' \<notin> set seg"
proof (induction s arbitrary: seg)
  case Nil
  then show ?case by simp
next
  case (Cons c s)
  then show ?case
    by (auto split: list.splits if_splits simp: js_split_not_Nil)
qed

lemma last_segment_no_slash: "CHR ''/'' \<notin> set (last (js_split ''/'' s))"
  using js_split_segments [of "last (js_split ''/'' s)" s] js_split_not_Nil [of "''/''" s]
  by simp

lemma bundle_index_ext_cases:
  "bundle_index_ext f = Inr ext \<Longrightarrow> ext = ''.d.ts'' \<or> ext = ''.metadata.json''"
  by (auto simp: bundle_index_ext_def split: if_splits)

lemma moveBundleIndex_eq:
  assumes "bundle_index_ext f = Inr ext"
  shows "moveBundleIndex h ps st f =
     Inr (if filter (startsWith (path_relative (cwd h) (binDir ps) f)) (secondaryEntryPoints st) = []
          then path_join [out ps, string_of_primary (primaryEntryPoint st) @ ext]
          else path_join [out ps,
                 last (filter (startsWith (path_relative (cwd h) (binDir ps) f)) (secondaryEntryPoints st)),
                 last (js_split ''/'' (last (filter (startsWith (path_relative (cwd h) (binDir ps) f))
                         (secondaryEntryPoints st)))) @ ext])"
proof -
  have "foldl (\<lambda>outputPath secondary.
                 if startsWith (path_relative (cwd h) (binDir ps) f) secondary
                 then Some (path_join [out ps, secondary, last (js_split ''/'' secondary) @ ext])
                 else outputPath) None (secondaryEntryPoints st)
      = (if filter (startsWith (path_relative (cwd h) (binDir ps) f)) (secondaryEntryPoints st) = []
         then None
         else Some (path_join [out ps,
                 last (filter (startsWith (path_relative (cwd h) (binDir ps) f)) (secondaryEntryPoints st)),
                 last (js_split ''/'' (last (filter (startsWith (path_relative (cwd h) (binDir ps) f))
                         (secondaryEntryPoints st)))) @ ext]))"
    by (rule last_match_fold)
  then show ?thesis
    using assms unfolding moveBundleIndex_def Let_def by (simp add: path_join_not_Nil)
qed

text \<open>
  Claim C2, as amended. For a file that ends in \<open>.d.ts\<close> or \<open>.metadata.json\<close>,
  \<open>moveBundleIndex\<close> goes through the secondary entry points in insertion order, and the
  LAST one that is a prefix of the file's path relative to the build-output root decides:
  the result is \<open>path.join(out, name, lastSegment(name) + ext)\<close>, a path whose base name
  is the last segment of that name followed by the extension. Only when no secondary
  entry point is such a prefix is the result \<open>path.join(out, primary + ext)\<close>.
\<close>

theorem moveBundleIndex_last_match:
  assumes "bundle_index_ext f = Inr ext"
  shows
    "(filter (startsWith (path_relative (cwd h) (binDir ps) f)) (secondaryEntryPoints st) = [] \<longrightarrow>
        moveBundleIndex h ps st f =
          Inr (path_join [out ps, string_of_primary (primaryEntryPoint st) @ ext])) \<and>
     (filter (startsWith (path_relative (cwd h) (binDir ps) f)) (secondaryEntryPoints st) \<noteq> [] \<longrightarrow>
        moveBundleIndex h ps st f =
          Inr (path_join [out ps,
                 last (filter (startsWith (path_relative (cwd h) (binDir ps) f)) (secondaryEntryPoints st)),
                 last (js_split ''/'' (last (filter (startsWith (path_relative (cwd h) (binDir ps) f))
                         (secondaryEntryPoints st)))) @ ext]) \<and>
        path_basename (path_join [out ps,
                 last (filter (startsWith (path_relative (cwd h) (binDir ps) f)) (secondaryEntryPoints st)),
                 last (js_split ''/'' (last (filter (startsWith (path_relative (cwd h) (binDir ps) f))
                         (secondaryEntryPoints st)))) @ ext])
          = last (js_split ''/'' (last (filter (startsWith (path_relative (cwd h) (binDir ps) f))
                         (secondaryEntryPoints st)))) @ ext)"
proof -
  let ?name = "last (filter (startsWith (path_relative (cwd h) (binDir ps) f)) (secondaryEntryPoints st))"
  let ?x = "last (js_split ''/'' ?name) @ ext"
  have e: "ext = ''.d.ts'' \<or> ext = ''.metadata.json''"
    by (rule bundle_index_ext_cases [OF assms])
  have x: "?x \<noteq> []" "?x \<noteq> ''.''" "?x \<noteq> ''..''" "CHR ''/'' \<notin> set ?x"
    using e last_segment_no_slash [of ?name] by (auto simp: append_eq_Cons_conv)
  have "path_basename (path_join ([out ps, ?name] @ [?x])) = ?x"
    by (rule path_basename_join [OF x])
  then show ?thesis
    using moveBundleIndex_eq [OF assms, of h ps st] by simp
qed

theorem moveBundleIndex_last_match_witness:
  "moveBundleIndex (example_host []) example_params nested_state ''bin/a/b/b.bundle_index.d.ts''
     = Inr ''out/a/b/b.d.ts''"
  using moveBundleIndex_last_match
          [of "''bin/a/b/b.bundle_index.d.ts''" "''.d.ts''" "example_host []" example_params
              nested_state]
  by (simp add: bundle_index_ext_def endsWith_def startsWith_def suffix_to_prefix
        example_host_def example_params_def nested_state_def writeFesm_all_def
        secondary_writeFesm primary_writeFesm entryPointNameOf_def path_basename_def
        is_line_terminator_def Set_add_def path_relative_def resolve_segments_def
        normalize_segments_def normalize_step_def isAbsolute_def path_join_def
        path_normalize_def normalizeString_def)

text \<open>
  The claim as the specification states it, with the first match deciding, fails where
  two secondary entry points are prefixes of the relative path: for \<open>a\<close> and \<open>a/b\<close> and
  the file \<open>bin/a/b/b.bundle_index.d.ts\<close> the first match gives \<open>out/a/a.d.ts\<close>, and
  the code returns \<open>out/a/b/b.d.ts\<close>.
\<close>

theorem moveBundleIndex_first_match_counterexample:
  "secondaryEntryPoints nested_state = [''a'', ''a/b''] \<and>
   path_relative (cwd (example_host [])) (binDir example_params) ''bin/a/b/b.bundle_index.d.ts''
     = ''a/b/b.bundle_index.d.ts'' \<and>
   first_match_destination (out example_params) (primaryEntryPoint nested_state)
       (secondaryEntryPoints nested_state) ''a/b/b.bundle_index.d.ts'' ''.d.ts''
     = ''out/a/a.d.ts'' \<and>
   moveBundleIndex (example_host []) example_params nested_state ''bin/a/b/b.bundle_index.d.ts''
     = Inr ''out/a/b/b.d.ts''"
  by (simp add: bundle_index_ext_def endsWith_def startsWith_def suffix_to_prefix
        example_host_def example_params_def nested_state_def writeFesm_all_def
        secondary_writeFesm primary_writeFesm entryPointNameOf_def path_basename_def
        is_line_terminator_def Set_add_def path_relative_def resolve_segments_def
        normalize_segments_def normalize_step_def isAbsolute_def path_join_def
        path_normalize_def normalizeString_def first_match_destination_def
        moveBundleIndex_def)


subsection \<open>Bundle indexes before any FESM\<close>

lemma bundle_index_ext_declaration:
  assumes "endsWith f ''.bundle_index.d.ts''"
  shows "bundle_index_ext f = Inr ''.d.ts''"
proof -
  have "suffix ''.d.ts'' ''.bundle_index.d.ts''"
    by (simp add: suffix_to_prefix)
  with assms have "suffix ''.d.ts'' f"
    unfolding endsWith_def using suffix_order.trans by blast
  then show ?thesis
    by (simp add: bundle_index_ext_def endsWith_def)
qed

lemma bundle_index_ext_metadata:
  assumes "endsWith f ''.bundle_index.metadata.json''"
  shows "bundle_index_ext f = Inr ''.metadata.json''"
proof -
  have "suffix ''.metadata.json'' ''.bundle_index.metadata.json''"
    by (simp add: suffix_to_prefix)
  with assms have m: "endsWith f ''.metadata.json''"
    unfolding endsWith_def using suffix_order.trans by blast
  then have "\<not> endsWith f ''.d.ts''"
    using declaration_not_metadata by blast
  with m show ?thesis
    by (simp add: bundle_index_ext_def)
qed

text \<open>
  Claim C10. Let no primary entry point be set, let the file be a bundle index (its path
  ends in \<open>.bundle_index.d.ts\<close> or \<open>.bundle_index.metadata.json\<close>, as \<open>main\<close> selects
  them) and let no secondary entry point be a prefix of its relative path. Then
  \<open>moveBundleIndex\<close> throws nothing. For a path that ends in \<open>.bundle_index.d.ts\<close> it
  returns \<open>path.join(out, 'null.d.ts')\<close>, and for one that ends in
  \<open>.bundle_index.metadata.json\<close> it returns \<open>path.join(out, 'null.metadata.json')\<close>:
  a path whose base name is the text \<open>null\<close> followed by the extension of the file.
\<close>

theorem moveBundleIndex_unset_primary:
  assumes "primaryEntryPoint st = None"
    and "endsWith f ''.bundle_index.d.ts'' \<or> endsWith f ''.bundle_index.metadata.json''"
    and "\<forall>name \<in> set (secondaryEntryPoints st).
           \<not> startsWith (path_relative (cwd h) (binDir ps) f) name"
  shows "(endsWith f ''.bundle_index.d.ts'' \<longrightarrow>
            moveBundleIndex h ps st f = Inr (path_join [out ps, ''null.d.ts'']) \<and>
            path_basename (path_join [out ps, ''null.d.ts'']) = ''null.d.ts'') \<and>
         (endsWith f ''.bundle_index.metadata.json'' \<longrightarrow>
            moveBundleIndex h ps st f = Inr (path_join [out ps, ''null.metadata.json'']) \<and>
            path_basename (path_join [out ps, ''null.metadata.json'']) = ''null.metadata.json'')"
proof -
  have none: "filter (startsWith (path_relative (cwd h) (binDir ps) f)) (secondaryEntryPoints st) = []"
    using assms(3) by (simp add: filter_empty_conv)
  have fallback: "moveBundleIndex h ps st f = Inr (path_join [out ps, ''null'' @ ext])"
    if "bundle_index_ext f = Inr ext" for ext
    using moveBundleIndex_eq [OF that, of h ps st] none assms(1)
    by (simp add: string_of_primary_def)
  have d: "path_basename (path_join ([out ps] @ [''null.d.ts''])) = ''null.d.ts''"
    by (rule path_basename_join) simp_all
  have m: "path_basename (path_join ([out ps] @ [''null.metadata.json''])) = ''null.metadata.json''"
    by (rule path_basename_join) simp_all
  show ?thesis
    using fallback [OF bundle_index_ext_declaration] fallback [OF bundle_index_ext_metadata] d m
    by simp
qed

theorem moveBundleIndex_unset_primary_witness:
  "moveBundleIndex (example_host []) example_params
     \<lparr>primaryEntryPoint = None, secondaryEntryPoints = [], storage = []\<rparr>
     ''bin/core.bundle_index.d.ts'' = Inr ''out/null.d.ts'' \<and>
   path_basename ''out/null.d.ts'' = ''null.d.ts'' \<and>
   moveBundleIndex (example_host []) example_params
     \<lparr>primaryEntryPoint = None, secondaryEntryPoints = [], storage = []\<rparr>
     ''bin/core.bundle_index.metadata.json'' = Inr ''out/null.metadata.json'' \<and>
   path_basename ''out/null.metadata.json'' = ''null.metadata.json''"
  using moveBundleIndex_unset_primary
          [of "\<lparr>primaryEntryPoint = None, secondaryEntryPoints = [], storage = []\<rparr>"
              "''bin/core.bundle_index.d.ts''" "example_host []" example_params]
        moveBundleIndex_unset_primary
          [of "\<lparr>primaryEntryPoint = None, secondaryEntryPoints = [], storage = []\<rparr>"
              "''bin/core.bundle_index.metadata.json''" "example_host []" example_params]
  by (simp add: endsWith_def suffix_to_prefix example_params_def
        path_join_def path_normalize_def normalizeString_def normalize_segments_def
        normalize_step_def isAbsolute_def path_basename_def)

subsection \<open>The entry-point name of a FESM file\<close>

lemma flatten_delimiter:
  "js_join ''/'' (js_split ''__'' (CHR ''_'' # CHR ''_'' # cs))
     = CHR ''/'' # js_join ''/'' (js_split ''__'' cs)"
proof -
  obtain y ys where "js_split ''__'' cs = y # ys"
    using js_split_not_Nil [of "''__''" cs] by (cases "js_split ''__'' cs") auto
  then show ?thesis by simp
qed

lemma flatten_other:
  assumes "\<not> prefix ''__'' (c # cs)"
  shows "js_join ''/'' (js_split ''__'' (c # cs)) = c # js_join ''/'' (js_split ''__'' cs)"
proof -
  obtain y ys where y: "js_split ''__'' cs = y # ys"
    using js_split_not_Nil [of "''__''" cs] by (cases "js_split ''__'' cs") auto
  have "js_split ''__'' (c # cs) = (c # y) # ys"
    using assms y by auto
  then show ?thesis using y by (cases ys) auto
qed

lemma delimiter_cases:
  obtains (Nil) "s = []"
  | (Delim) cs where "s = CHR ''_'' # CHR ''_'' # cs"
  | (Other) c cs where "s = c # cs" "\<not> prefix ''__'' (c # cs)"
proof (cases s)
  case Nil
  then show ?thesis using that(1) by simp
next
  case (Cons c cs)
  show ?thesis
  proof (cases "prefix ''__'' (c # cs)")
    case True
    then have "s = CHR ''_'' # CHR ''_'' # drop 1 cs"
      using Cons by (cases cs) auto
    then show ?thesis using that(2) by blast
  next
    case False
    then show ?thesis using that(3) Cons by blast
  qed
qed


lemma unflatten:
  "CHR ''/'' \<notin> set s \<Longrightarrow>
     concat (map (\<lambda>c. if c = CHR ''/'' then ''__'' else [c]) (js_join ''/'' (js_split ''__'' s))) = s"
proof (induction s rule: length_induct)
  case (1 s)
  show ?case
  proof (cases s rule: delimiter_cases)
    case Nil
    then show ?thesis by simp
  next
    case (Delim cs)
    then have "concat (map (\<lambda>c. if c = CHR ''/'' then ''__'' else [c])
                (js_join ''/'' (js_split ''__'' cs))) = cs"
      using 1 by simp
    then show ?thesis
      unfolding Delim flatten_delimiter by simp
  next
    case (Other c cs)
    then have "concat (map (\<lambda>c. if c = CHR ''/'' then ''__'' else [c])
                (js_join ''/'' (js_split ''__'' cs))) = cs"
      using 1 by simp
    moreover have "c \<noteq> CHR ''/''" using 1(2) Other by auto
    ultimately show ?thesis
      unfolding Other(1) flatten_other [OF Other(2)] by simp
  qed
qed





lemma flatten_takeWhile:
  "takeWhile (\<lambda>c. c \<noteq> CHR ''.'') (js_join ''/'' (js_split ''__'' s))
     = js_join ''/'' (js_split ''__'' (takeWhile (\<lambda>c. c \<noteq> CHR ''.'') s))"
proof (induction s rule: length_induct)
  case (1 s)
  show ?case
  proof (cases s rule: delimiter_cases)
    case Nil
    then show ?thesis by simp
  next
    case (Delim cs)
    then have "length cs < length s" by simp
    then have ih: "takeWhile (\<lambda>c. c \<noteq> CHR ''.'') (js_join ''/'' (js_split ''__'' cs))
          = js_join ''/'' (js_split ''__'' (takeWhile (\<lambda>c. c \<noteq> CHR ''.'') cs))"
      using 1 by blast
    have "takeWhile (\<lambda>c. c \<noteq> CHR ''.'') (CHR ''_'' # CHR ''_'' # cs)
        = CHR ''_'' # CHR ''_'' # takeWhile (\<lambda>c. c \<noteq> CHR ''.'') cs"
      by simp
    then show ?thesis
      unfolding Delim by (simp only: flatten_delimiter ih takeWhile.simps) simp
  next
    case (Other c cs)
    then have "length cs < length s" by simp
    then have ih: "takeWhile (\<lambda>c. c \<noteq> CHR ''.'') (js_join ''/'' (js_split ''__'' cs))
          = js_join ''/'' (js_split ''__'' (takeWhile (\<lambda>c. c \<noteq> CHR ''.'') cs))"
      using 1 by blast
    show ?thesis
    proof (cases "c = CHR ''.''")
      case True
      then show ?thesis
        unfolding Other(1) flatten_other [OF Other(2)] by simp
    next
      case False
      have "\<not> prefix ''__'' (c # takeWhile (\<lambda>c. c \<noteq> CHR ''.'') cs)"
        using Other(2) by (cases cs) auto
      then have r: "js_join ''/'' (js_split ''__'' (c # takeWhile (\<lambda>c. c \<noteq> CHR ''.'') cs))
          = c # js_join ''/'' (js_split ''__'' (takeWhile (\<lambda>c. c \<noteq> CHR ''.'') cs))"
        by (rule flatten_other)
      have t: "takeWhile (\<lambda>c. c \<noteq> CHR ''.'') (c # cs)
          = c # takeWhile (\<lambda>c. c \<noteq> CHR ''.'') cs"
        using False by simp
      have "takeWhile (\<lambda>c. c \<noteq> CHR ''.'') (js_join ''/'' (js_split ''__'' (c # cs)))
          = takeWhile (\<lambda>c. c \<noteq> CHR ''.'') (c # js_join ''/'' (js_split ''__'' cs))"
        by (simp only: flatten_other [OF Other(2)])
      also have "\<dots> = c # takeWhile (\<lambda>c. c \<noteq> CHR ''.'') (js_join ''/'' (js_split ''__'' cs))"
        using False by simp
      also have "\<dots> = c # js_join ''/'' (js_split ''__'' (takeWhile (\<lambda>c. c \<noteq> CHR ''.'') cs))"
        by (simp only: ih)
      also have "\<dots> = js_join ''/'' (js_split ''__'' (takeWhile (\<lambda>c. c \<noteq> CHR ''.'') (c # cs)))"
        by (simp only: r t)
      finally show ?thesis
        unfolding Other(1) .
    qed
  qed
qed

lemma flatten_inj:
  assumes "CHR ''/'' \<notin> set s" "CHR ''/'' \<notin> set t"
    and "js_join ''/'' (js_split ''__'' s) = js_join ''/'' (js_split ''__'' t)"
  shows "s = t"
proof -
  have "s = concat (map (\<lambda>c. if c = CHR ''/'' then ''__'' else [c])
                (js_join ''/'' (js_split ''__'' s)))"
    by (rule unflatten [OF assms(1), symmetric])
  also have "\<dots> = concat (map (\<lambda>c. if c = CHR ''/'' then ''__'' else [c])
                (js_join ''/'' (js_split ''__'' t)))"
    by (simp only: assms(3))
  also have "\<dots> = t"
    by (rule unflatten [OF assms(2)])
  finally show ?thesis .
qed


lemma set_flatten: "set (js_join ''/'' (js_split ''__'' s)) \<subseteq> insert CHR ''/'' (set s)"
proof (induction s rule: length_induct)
  case (1 s)
  show ?case
  proof (cases s rule: delimiter_cases)
    case Nil
    then show ?thesis by simp
  next
    case (Delim cs)
    then have "length cs < length s" by simp
    then have "set (js_join ''/'' (js_split ''__'' cs)) \<subseteq> insert CHR ''/'' (set cs)"
      using 1 by blast
    then have "set (CHR ''/'' # js_join ''/'' (js_split ''__'' cs))
        \<subseteq> insert CHR ''/'' (set (CHR ''_'' # CHR ''_'' # cs))"
      by auto
    then show ?thesis
      unfolding Delim by (simp only: flatten_delimiter)
  next
    case (Other c cs)
    then have "length cs < length s" by simp
    then have "set (js_join ''/'' (js_split ''__'' cs)) \<subseteq> insert CHR ''/'' (set cs)"
      using 1 by blast
    then have "set (c # js_join ''/'' (js_split ''__'' cs)) \<subseteq> insert CHR ''/'' (set (c # cs))"
      by auto
    then show ?thesis
      unfolding Other(1) by (simp only: flatten_other [OF Other(2)])
  qed
qed

lemma replace_dot_rest_eq:
  "replace_dot_rest s =
     takeWhile (\<lambda>c. c \<noteq> CHR ''.'') s
     @ dropWhile (\<lambda>c. \<not> is_line_terminator c) (drop 1 (dropWhile (\<lambda>c. c \<noteq> CHR ''.'') s))"
  by (induction s) simp_all


lemma replace_dot_rest_one_line:
  "\<forall>c \<in> set s. \<not> is_line_terminator c \<Longrightarrow>
     replace_dot_rest s = takeWhile (\<lambda>c. c \<noteq> CHR ''.'') s"
  by (induction s) simp_all


lemma path_basename_no_slash: "CHR ''/'' \<notin> set (path_basename p)"
proof
  assume "CHR ''/'' \<in> set (path_basename p)"
  then have "CHR ''/'' \<in> set (takeWhile (\<lambda>c. c \<noteq> CHR ''/'')
                 (dropWhile (\<lambda>c. c = CHR ''/'') (rev p)))"
    by (simp add: path_basename_def)
  then show False
    using set_takeWhileD by fastforce
qed


lemma rejoin_delimiter:
  "js_join ''__'' (js_split ''__'' (CHR ''_'' # CHR ''_'' # cs))
     = CHR ''_'' # CHR ''_'' # js_join ''__'' (js_split ''__'' cs)"
proof -
  obtain y ys where "js_split ''__'' cs = y # ys"
    using js_split_not_Nil [of "''__''" cs] by (cases "js_split ''__'' cs") auto
  then show ?thesis by simp
qed

lemma rejoin_other:
  assumes "\<not> prefix ''__'' (c # cs)"
  shows "js_join ''__'' (js_split ''__'' (c # cs)) = c # js_join ''__'' (js_split ''__'' cs)"
proof -
  obtain y ys where y: "js_split ''__'' cs = y # ys"
    using js_split_not_Nil [of "''__''" cs] by (cases "js_split ''__'' cs") auto
  have "js_split ''__'' (c # cs) = (c # y) # ys"
    using assms y by auto
  then show ?thesis using y by (cases ys) auto
qed

lemma rejoin: "js_join ''__'' (js_split ''__'' s) = s"
proof (induction s rule: length_induct)
  case (1 s)
  show ?case
  proof (cases s rule: delimiter_cases)
    case Nil
    then show ?thesis by simp
  next
    case (Delim cs)
    then have "length cs < length s" by simp
    then have "js_join ''__'' (js_split ''__'' cs) = cs"
      using 1 by blast
    then show ?thesis
      unfolding Delim by (simp only: rejoin_delimiter)
  next
    case (Other c cs)
    then have "length cs < length s" by simp
    then have "js_join ''__'' (js_split ''__'' cs) = cs"
      using 1 by blast
    then show ?thesis
      unfolding Other(1) by (simp only: rejoin_other [OF Other(2)])
  qed
qed

lemma flatten_one_line:
  assumes "\<forall>c \<in> set s. \<not> is_line_terminator c"
  shows "\<forall>c \<in> set (js_join ''/'' (js_split ''__'' s)). \<not> is_line_terminator c"
proof
  fix c assume "c \<in> set (js_join ''/'' (js_split ''__'' s))"
  then have "c = CHR ''/'' \<or> c \<in> set s"
    using set_flatten [of s] by auto
  then show "\<not> is_line_terminator c"
    using assms by (auto simp: is_line_terminator_def)
qed

lemma entryPointNameOf_one_line:
  assumes "\<forall>c \<in> set (path_basename file). \<not> is_line_terminator c"
  shows "entryPointNameOf file = entryPointNameOf_spec file"
  unfolding entryPointNameOf_def entryPointNameOf_spec_def strip_extension_def Let_def
  by (rule replace_dot_rest_one_line [OF flatten_one_line [OF assms]])

text \<open>
  Claim C6, as amended. The entry-point name of a FESM file is its base name split at
  the double underscores, the segments joined with slashes, and then without the first
  full stop and what follows it up to the next line terminator (or to the end, when no
  line terminator follows). For a base name without line terminators that is everything
  from the first full stop onward. The segments joined with double underscores are the
  base name again, and \<open>common__http.umd.js\<close> yields \<open>common/http\<close>.
\<close>

theorem entryPointNameOf_derivation:
  "entryPointNameOf file =
     strip_extension (js_join ''/'' (js_split ''__'' (path_basename file)))
     @ dropWhile (\<lambda>c. \<not> is_line_terminator c)
         (drop 1 (dropWhile (\<lambda>c. c \<noteq> CHR ''.'')
                    (js_join ''/'' (js_split ''__'' (path_basename file))))) \<and>
   ((\<forall>c \<in> set (path_basename file). \<not> is_line_terminator c) \<longrightarrow>
      entryPointNameOf file =
        strip_extension (js_join ''/'' (js_split ''__'' (path_basename file)))) \<and>
   js_join ''__'' (js_split ''__'' (path_basename file)) = path_basename file \<and>
   entryPointNameOf ''common__http.umd.js'' = ''common/http''"
proof -
  have 1: "entryPointNameOf file =
     strip_extension (js_join ''/'' (js_split ''__'' (path_basename file)))
     @ dropWhile (\<lambda>c. \<not> is_line_terminator c)
         (drop 1 (dropWhile (\<lambda>c. c \<noteq> CHR ''.'')
                    (js_join ''/'' (js_split ''__'' (path_basename file)))))"
    unfolding entryPointNameOf_def strip_extension_def Let_def by (rule replace_dot_rest_eq)
  have 2: "(\<forall>c \<in> set (path_basename file). \<not> is_line_terminator c) \<longrightarrow>
      entryPointNameOf file =
        strip_extension (js_join ''/'' (js_split ''__'' (path_basename file)))"
    using entryPointNameOf_one_line [of "file"] by (simp add: entryPointNameOf_spec_def)
  have 3: "entryPointNameOf ''common__http.umd.js'' = ''common/http''"
    by (simp add: entryPointNameOf_def path_basename_def is_line_terminator_def)
  from 1 2 3 rejoin show ?thesis by blast
qed

theorem entryPointNameOf_derivation_witness:
  "entryPointNameOf ''bazel-bin/packages/common/common__http__testing.js''
     = ''common/http/testing''"
  using entryPointNameOf_derivation [of "''bazel-bin/packages/common/common__http__testing.js''"]
  by (simp add: path_basename_def is_line_terminator_def strip_extension_def)

text \<open>
  The claim as the specification states it fails for a name with a line terminator after
  its first full stop, such as the last name of a list whose line ends in a carriage
  return: the regular expression's \<open>.\<close> stops there, and the carriage return stays.
\<close>

theorem entryPointNameOf_carriage_return_counterexample:
  "entryPointNameOf (''bin/core.js'' @ [CHR 0x0D]) = ''core'' @ [CHR 0x0D] \<and>
   entryPointNameOf_spec (''bin/core.js'' @ [CHR 0x0D]) = ''core''"
  by (simp add: entryPointNameOf_def entryPointNameOf_spec_def strip_extension_def
        path_basename_def is_line_terminator_def)

text \<open>
  Claim C7, as amended. The entry-point name depends on the base name of the file only,
  and two files whose base names have no line terminator get the same entry-point name
  exactly when their base names agree up to the first full stop: the derivation is
  injective on the base names without their extensions.
\<close>

theorem entryPointNameOf_injective:
  assumes "\<forall>c \<in> set (path_basename f). \<not> is_line_terminator c"
    and "\<forall>c \<in> set (path_basename g). \<not> is_line_terminator c"
  shows "(entryPointNameOf f = entryPointNameOf g \<longleftrightarrow>
            strip_extension (path_basename f) = strip_extension (path_basename g)) \<and>
         (path_basename f = path_basename g \<longrightarrow> entryPointNameOf f = entryPointNameOf g)"
proof -
  have f: "entryPointNameOf f
      = js_join ''/'' (js_split ''__'' (strip_extension (path_basename f)))"
    using entryPointNameOf_one_line [OF assms(1)]
    by (simp only: entryPointNameOf_spec_def strip_extension_def flatten_takeWhile)
  have g: "entryPointNameOf g
      = js_join ''/'' (js_split ''__'' (strip_extension (path_basename g)))"
    using entryPointNameOf_one_line [OF assms(2)]
    by (simp only: entryPointNameOf_spec_def strip_extension_def flatten_takeWhile)
  have nf: "CHR ''/'' \<notin> set (strip_extension (path_basename f))"
    using path_basename_no_slash [of f] unfolding strip_extension_def
    by (meson set_takeWhileD)
  have ng: "CHR ''/'' \<notin> set (strip_extension (path_basename g))"
    using path_basename_no_slash [of g] unfolding strip_extension_def
    by (meson set_takeWhileD)
  have "entryPointNameOf f = entryPointNameOf g \<longleftrightarrow>
            strip_extension (path_basename f) = strip_extension (path_basename g)"
    unfolding f g using flatten_inj [OF nf ng] by auto
  moreover have "path_basename f = path_basename g \<longrightarrow> entryPointNameOf f = entryPointNameOf g"
    by (simp add: entryPointNameOf_def)
  ultimately show ?thesis by blast
qed

theorem entryPointNameOf_injective_witness:
  "entryPointNameOf ''esm2015/core__testing.js'' = entryPointNameOf ''esm5/core__testing.es5.js'' \<and>
   entryPointNameOf ''esm2015/core__testing.js'' \<noteq> entryPointNameOf ''esm2015/core.js''"
  using entryPointNameOf_injective [of "''esm2015/core__testing.js''" "''esm5/core__testing.es5.js''"]
    entryPointNameOf_injective [of "''esm2015/core__testing.js''" "''esm2015/core.js''"]
  by (simp add: path_basename_def is_line_terminator_def strip_extension_def)

text \<open>
  The claim as the specification states it fails for base names that differ in their
  extensions only: \<open>core.js\<close> and \<open>core.es5.js\<close> have different segments and the
  same entry-point name.
\<close>

theorem entryPointNameOf_extension_counterexample:
  "js_split ''__'' (path_basename ''esm2015/core.js'')
     \<noteq> js_split ''__'' (path_basename ''esm5/core.es5.js'') \<and>
   entryPointNameOf ''esm2015/core.js'' = entryPointNameOf ''esm5/core.es5.js''"
  by (simp add: entryPointNameOf_def path_basename_def is_line_terminator_def)

subsection \<open>Rewriting the package descriptor\<close>

lemma map_of_overwrite_other:
  "x \<noteq> k \<Longrightarrow> map_of (map (\<lambda>kv. if fst kv = k then (k, v) else kv) kvs) x = map_of kvs x"
  by (induction kvs) auto

lemma map_of_overwrite_same:
  "k \<in> fst ` set kvs \<Longrightarrow> map_of (map (\<lambda>kv. if fst kv = k then (k, v) else kv) kvs) k = Some v"
  by (induction kvs) auto

lemma map_of_set_property: "map_of (set_property k v kvs) = (map_of kvs)(k \<mapsto> v)"
proof (cases "k \<in> fst ` set kvs")
  case True
  then show ?thesis
    by (auto simp: set_property_def fun_eq_iff map_of_overwrite_other map_of_overwrite_same)
next
  case False
  then have "map_of kvs k = None" by (simp add: map_of_eq_None_iff)
  with False show ?thesis
    by (auto simp: set_property_def fun_eq_iff map_add_def split: option.splits)
qed

lemma keys_set_property:
  "map fst (set_property k v kvs) =
     (if k \<in> fst ` set kvs then map fst kvs else map fst kvs @ [k])"
  by (auto simp: set_property_def)

lemma others_overwrite:
  "k \<in> K \<Longrightarrow> filter (\<lambda>kv. fst kv \<notin> K) (map (\<lambda>kv. if fst kv = k then (k, v) else kv) kvs)
     = filter (\<lambda>kv. fst kv \<notin> K) kvs"
  by (induction kvs) auto

lemma others_set_property:
  "k \<in> K \<Longrightarrow> filter (\<lambda>kv. fst kv \<notin> K) (set_property k v kvs) = filter (\<lambda>kv. fst kv \<notin> K) kvs"
  by (simp add: set_property_def others_overwrite)


lemma join_dotdot_Nil: "js_join ''/'' (replicate n ''..'') = [] \<longleftrightarrow> n = 0"
proof (cases n)
  case 0
  then show ?thesis by simp
next
  case (Suc m)
  then show ?thesis by (cases m) auto
qed

lemma amend_fields_eq:
  assumes "map_of parsedPackage ''name'' = Some (JString name)"
    and "segments = (if startsWith (hd (js_split ''/'' name)) ''@''
                     then tl (js_split ''/'' name) else js_split ''/'' name)"
    and "segments \<noteq> []"
    and "rel = (if length segments = 1 then ''.''
                else js_join ''/'' (replicate (length segments - 1) ''..''))"
  shows "amend_fields parsedPackage =
     Inr (set_property ''typings'' (JString (''./'' @ last segments @ ''.d.ts''))
           (set_property ''es2015'' (JString (rel @ ''/esm2015/'' @ last segments @ ''.js''))
             (set_property ''module'' (JString (rel @ ''/esm5/'' @ last segments @ ''.js''))
               (set_property ''main''
                  (JString (rel @ ''/bundles/'' @ js_join ''-'' segments @ ''.umd.js''))
                  parsedPackage))))"
proof -
  obtain first others where split: "js_split ''/'' name = first # others"
    using js_split_not_Nil [of "''/''" name] by (cases "js_split ''/'' name") auto
  have segs: "segments = (if startsWith first ''@'' then others else first # others)"
    using assms(2) split by simp
  have "length segments - 1 \<noteq> 0 \<longleftrightarrow> length segments \<noteq> 1"
    using assms(3) by (cases segments) auto
  then have rel: "rel = (if js_join ''/'' (replicate (length segments - 1) ''..'') = [] then ''.''
                   else js_join ''/'' (replicate (length segments - 1) ''..''))"
    using assms(4) join_dotdot_Nil [of "length segments - 1"] by auto
  show ?thesis
    unfolding amend_fields_def Let_def
    using assms(1,3) split segs rel by (simp del: js_split.simps)
qed

lemma set_property_not_Nil: "set_property k v kvs \<noteq> []"
  by (auto simp: set_property_def)

lemma stringify_object_2:
  assumes "kvs \<noteq> []"
  shows "JSON_stringify (JObject kvs) 2 =
     ''{\<newline>  ''
     @ js_join '',\<newline>  ''
         (map (\<lambda>kv. QuoteJSONString (fst kv) @ '': '' @ SerializeJSONProperty ''  '' ''  '' (snd kv))
            kvs)
     @ ''\<newline>}''"
proof -
  have "replicate (min 10 2) CHR '' '' = ''  ''"
    by (simp add: eval_nat_numeral)
  then show ?thesis
    using assms by (simp add: JSON_stringify_def Let_def)
qed

lemma keys_set_property_set: "fst ` set (set_property k v kvs) = insert k (fst ` set kvs)"
proof -
  have "fst ` set (set_property k v kvs) = set (map fst (set_property k v kvs))"
    by simp
  also have "\<dots> = insert k (fst ` set kvs)"
    unfolding keys_set_property by auto
  finally show ?thesis .
qed

lemma amended_keys:
  "map fst (set_property ''typings'' v4 (set_property ''es2015'' v3
             (set_property ''module'' v2 (set_property ''main'' v1 kvs))))
     = map fst kvs
       @ filter (\<lambda>k. k \<notin> fst ` set kvs) [''main'', ''module'', ''es2015'', ''typings'']"
  by (simp add: keys_set_property keys_set_property_set)

lemma amended_others:
  "filter (\<lambda>kv. fst kv \<notin> {''main'', ''module'', ''es2015'', ''typings''})
     (set_property ''typings'' v4 (set_property ''es2015'' v3
        (set_property ''module'' v2 (set_property ''main'' v1 kvs))))
   = filter (\<lambda>kv. fst kv \<notin> {''main'', ''module'', ''es2015'', ''typings''}) kvs"
proof -
  have 1: "''main'' \<in> {''main'', ''module'', ''es2015'', ''typings''}" by simp
  have 2: "''module'' \<in> {''main'', ''module'', ''es2015'', ''typings''}" by simp
  have 3: "''es2015'' \<in> {''main'', ''module'', ''es2015'', ''typings''}" by simp
  have 4: "''typings'' \<in> {''main'', ''module'', ''es2015'', ''typings''}" by simp
  show ?thesis
    by (simp only: others_set_property [OF 1] others_set_property [OF 2]
          others_set_property [OF 3] others_set_property [OF 4])
qed

lemma JSON_parse_object:
  assumes "JSON_parse to_string content = Inr (JObject parsedPackage)"
  obtains members where
    "parse_document content = Inr (JObject members)"
    "parsedPackage = own_properties (map (\<lambda>kv. (fst kv, value_of to_string (snd kv))) members)"
proof -
  from assms obtain document where d: "parse_document content = Inr document"
    "value_of to_string document = JObject parsedPackage"
    by (auto simp: JSON_parse_def split: sum.splits)
  from d(2) obtain members where "document = JObject members"
    "parsedPackage = own_properties (map (\<lambda>kv. (fst kv, value_of to_string (snd kv))) members)"
    by (cases document) auto
  with d(1) that show ?thesis by blast
qed

lemma created_keys:
  "map fst (foldl (\<lambda>obj kv. set_property (fst kv) (snd kv) obj) [] members)
     = rev (remdups (rev (map fst members)))"
proof (induction members rule: rev_induct)
  case Nil
  then show ?case by simp
next
  case (snoc m members)
  have "map fst (set_property (fst m) (snd m) obj) = Set_add (fst m) (map fst obj)" for obj
    by (simp add: keys_set_property Set_add_def)
  with snoc show ?case
    by (simp add: first_occurrences_snoc del: rev_append remdups.simps rev.simps)
qed

lemma created_values:
  "map_of (foldl (\<lambda>obj kv. set_property (fst kv) (snd kv) obj) [] members) = map_of (rev members)"
proof (induction members rule: rev_induct)
  case Nil
  then show ?case by simp
next
  case (snoc m members)
  then show ?case
    by (cases m) (simp add: map_of_set_property)
qed

lemma created_distinct:
  "distinct (map fst members) \<Longrightarrow>
     foldl (\<lambda>obj kv. set_property (fst kv) (snd kv) obj) [] members = members"
proof (induction members rule: rev_induct)
  case Nil
  then show ?case by simp
next
  case (snoc m members)
  then show ?case
    by (cases m) (auto simp: set_property_def)
qed

lemma own_properties_plain:
  assumes "distinct (map fst members)" and "\<forall>k \<in> set (map fst members). \<not> is_array_index k"
  shows "own_properties members = members"
proof -
  have "filter (\<lambda>kv. is_array_index (fst kv)) members = []"
    using assms(2) by (auto simp: filter_empty_conv)
  moreover have "filter (\<lambda>kv. \<not> is_array_index (fst kv)) members = members"
    using assms(2) by (auto simp: filter_id_conv)
  ultimately show ?thesis
    by (simp add: own_properties_def created_distinct [OF assms(1)])
qed

lemma keys_insort:
  "map fst (insort_key (\<lambda>kv. f (fst kv)) x xs) = insort_key f (fst x) (map fst xs)"
  by (induction xs) simp_all

lemma keys_sort:
  "map fst (sort_key (\<lambda>kv. f (fst kv)) xs) = sort_key f (map fst xs)"
  by (induction xs) (simp_all add: keys_insort)

lemma own_properties_keys:
  "map fst (own_properties members)
     = sort_key int_of_digits (filter is_array_index (rev (remdups (rev (map fst members)))))
       @ filter (\<lambda>k. \<not> is_array_index k) (rev (remdups (rev (map fst members))))"
proof -
  let ?created = "foldl (\<lambda>obj kv. set_property (fst kv) (snd kv) obj) [] members"
  have 1: "map fst (filter (\<lambda>kv. is_array_index (fst kv)) ?created)
      = filter is_array_index (map fst ?created)"
    by (simp add: filter_map comp_def)
  have 2: "map fst (filter (\<lambda>kv. \<not> is_array_index (fst kv)) ?created)
      = filter (\<lambda>k. \<not> is_array_index k) (map fst ?created)"
    by (simp add: filter_map comp_def)
  have "map fst (own_properties members)
      = sort_key int_of_digits (map fst (filter (\<lambda>kv. is_array_index (fst kv)) ?created))
        @ map fst (filter (\<lambda>kv. \<not> is_array_index (fst kv)) ?created)"
    by (simp add: own_properties_def Let_def keys_sort)
  then show ?thesis
    unfolding 1 2 created_keys .
qed

lemma own_properties_values: "map_of (own_properties members) = map_of (rev members)"
proof -
  let ?created = "foldl (\<lambda>obj kv. set_property (fst kv) (snd kv) obj) [] members"
  have d: "distinct (map fst ?created)"
    unfolding created_keys by simp
  have "distinct (map fst (own_properties members))"
    unfolding own_properties_keys by (auto simp: distinct_remdups)
  moreover have "set (own_properties members) = set ?created"
    by (auto simp: own_properties_def Let_def)
  ultimately have "map_of (own_properties members) = map_of ?created"
    using d map_of_inject_set by blast
  then show ?thesis by (simp add: created_values)
qed

lemma amended_member:
  assumes "map_of amended k = Some (JString v)"
  shows "QuoteJSONString k @ '': '' @ QuoteJSONString v
           \<in> set (map
                           (\<lambda>kv. QuoteJSONString (fst kv) @ '': '' @ SerializeJSONProperty ''  '' ''  '' (snd kv)) amended)"
proof -
  have "(k, JString v) \<in> set amended"
    using assms by (rule map_of_SomeD)
  then have "
                           (\<lambda>kv. QuoteJSONString (fst kv) @ '': '' @ SerializeJSONProperty ''  '' ''  '' (snd kv)) (k, JString v) \<in>
                           (\<lambda>kv. QuoteJSONString (fst kv) @ '': '' @ SerializeJSONProperty ''  '' ''  '' (snd kv)) ` set amended"
    by (rule imageI)
  then show ?thesis by simp
qed

lemma quoted_keys:
  \<open>QuoteJSONString ''main'' = ''"main"''\<close>
  \<open>QuoteJSONString ''module'' = ''"module"''\<close>
  \<open>QuoteJSONString ''es2015'' = ''"es2015"''\<close>
  \<open>QuoteJSONString ''typings'' = ''"typings"''\<close>
  by (simp_all add: QuoteJSONString_def quote_char_def)

lemma core_amended:
  \<open>amendPackageJson h filePath ''{"name":"@angular/core"}''
     = Inr (''{\<newline>'' @
                  ''  "name": "@angular/core",\<newline>'' @
                  ''  "main": "./bundles/core.umd.js",\<newline>'' @
                  ''  "module": "./esm5/core.js",\<newline>'' @
                  ''  "es2015": "./esm2015/core.js",\<newline>'' @
                  ''  "typings": "./core.d.ts"\<newline>'' @
                  ''}'')\<close>
  by code_simp

lemma http_amended:
  \<open>amendPackageJson (example_host []) ''package.json''
       ''{"name": "@angular/common/http", "version": "0.0.0-PLACEHOLDER"}''
     = Inr (''{\<newline>'' @
                  ''  "name": "@angular/common/http",\<newline>'' @
                  ''  "version": "0.0.0-PLACEHOLDER",\<newline>'' @
                  ''  "main": "../bundles/common-http.umd.js",\<newline>'' @
                  ''  "module": "../esm5/http.js",\<newline>'' @
                  ''  "es2015": "../esm2015/http.js",\<newline>'' @
                  ''  "typings": "./http.d.ts"\<newline>'' @
                  ''}'')\<close>
  by code_simp

text \<open>
  Claim C3. Let the descriptor parse to an object whose \<open>name\<close> is a string, let
  \<open>segments\<close> be the name's segments between slashes without a first segment that
  starts with \<open>@\<close>, and let at least one segment remain. With \<open>rel\<close> the text \<open>.\<close> for
  one segment and otherwise one \<open>..\<close> less than there are segments, joined by slashes,
  \<open>amendPackageJson\<close> sets \<open>main\<close> to \<open>rel/bundles/s1-...-sk.umd.js\<close>, \<open>module\<close> to
  \<open>rel/esm5/sk.js\<close>, \<open>es2015\<close> to \<open>rel/esm2015/sk.js\<close> and \<open>typings\<close> to \<open>./sk.d.ts\<close>.
  The text that it returns has one property a line between \<open>{\<close> and \<open>}\<close>, and the four
  properties are among them, each as its quoted key, a colon, a space and its quoted
  value. For the descriptor \<open>{"name":"@angular/core"}\<close> the text returned has the four
  values \<open>./bundles/core.umd.js\<close>, \<open>./esm5/core.js\<close>, \<open>./esm2015/core.js\<close> and
  \<open>./core.d.ts\<close>.
\<close>

theorem amendPackageJson_fields:
  assumes "JSON_parse (number_to_string h) content = Inr (JObject parsedPackage)"
    and "map_of parsedPackage ''name'' = Some (JString name)"
    and "segments = (if startsWith (hd (js_split ''/'' name)) ''@''
                     then tl (js_split ''/'' name) else js_split ''/'' name)"
    and "segments \<noteq> []"
    and "rel = (if length segments = 1 then ''.''
                else js_join ''/'' (replicate (length segments - 1) ''..''))"
  shows \<open>(\<exists>amended.
            amend_fields parsedPackage = Inr amended \<and>
            amendPackageJson h filePath content
              = Inr (''{\<newline>  ''
                     @ js_join '',\<newline>  ''
                         (map
                           (\<lambda>kv. QuoteJSONString (fst kv) @ '': '' @ SerializeJSONProperty ''  '' ''  '' (snd kv)) amended)
                     @ ''\<newline>}'') \<and>
            map_of amended ''main''
              = Some (JString (rel @ ''/bundles/'' @ js_join ''-'' segments @ ''.umd.js'')) \<and>
            map_of amended ''module''
              = Some (JString (rel @ ''/esm5/'' @ last segments @ ''.js'')) \<and>
            map_of amended ''es2015''
              = Some (JString (rel @ ''/esm2015/'' @ last segments @ ''.js'')) \<and>
            map_of amended ''typings''
              = Some (JString (''./'' @ last segments @ ''.d.ts'')) \<and>
            ''"main": '' @ QuoteJSONString (rel @ ''/bundles/'' @ js_join ''-'' segments @ ''.umd.js'')
              \<in> set (map
                           (\<lambda>kv. QuoteJSONString (fst kv) @ '': '' @ SerializeJSONProperty ''  '' ''  '' (snd kv)) amended) \<and>
            ''"module": '' @ QuoteJSONString (rel @ ''/esm5/'' @ last segments @ ''.js'')
              \<in> set (map
                           (\<lambda>kv. QuoteJSONString (fst kv) @ '': '' @ SerializeJSONProperty ''  '' ''  '' (snd kv)) amended) \<and>
            ''"es2015": '' @ QuoteJSONString (rel @ ''/esm2015/'' @ last segments @ ''.js'')
              \<in> set (map
                           (\<lambda>kv. QuoteJSONString (fst kv) @ '': '' @ SerializeJSONProperty ''  '' ''  '' (snd kv)) amended) \<and>
            ''"typings": '' @ QuoteJSONString (''./'' @ last segments @ ''.d.ts'')
              \<in> set (map
                           (\<lambda>kv. QuoteJSONString (fst kv) @ '': '' @ SerializeJSONProperty ''  '' ''  '' (snd kv)) amended)) \<and>
         amendPackageJson h filePath ''{"name":"@angular/core"}''
           = Inr (''{\<newline>'' @
                  ''  "name": "@angular/core",\<newline>'' @
                  ''  "main": "./bundles/core.umd.js",\<newline>'' @
                  ''  "module": "./esm5/core.js",\<newline>'' @
                  ''  "es2015": "./esm2015/core.js",\<newline>'' @
                  ''  "typings": "./core.d.ts"\<newline>'' @
                  ''}'')\<close>
proof -
  let ?amended = "set_property ''typings'' (JString (''./'' @ last segments @ ''.d.ts''))
           (set_property ''es2015'' (JString (rel @ ''/esm2015/'' @ last segments @ ''.js''))
             (set_property ''module'' (JString (rel @ ''/esm5/'' @ last segments @ ''.js''))
               (set_property ''main''
                  (JString (rel @ ''/bundles/'' @ js_join ''-'' segments @ ''.umd.js''))
                  parsedPackage)))"
  have eq: "amend_fields parsedPackage = Inr ?amended"
    by (rule amend_fields_eq [OF assms(2-5)])
  have "amendPackageJson h filePath content = Inr (JSON_stringify (JObject ?amended) 2)"
    using assms(1) eq by (simp add: amendPackageJson_def)
  then have returned: "amendPackageJson h filePath content
      = Inr (''{\<newline>  ''
             @ js_join '',\<newline>  '' (map
                           (\<lambda>kv. QuoteJSONString (fst kv) @ '': '' @ SerializeJSONProperty ''  '' ''  '' (snd kv)) ?amended)
             @ ''\<newline>}'')"
    by (simp only: stringify_object_2 [OF set_property_not_Nil])
  have main: "map_of ?amended ''main''
      = Some (JString (rel @ ''/bundles/'' @ js_join ''-'' segments @ ''.umd.js''))"
    and module: "map_of ?amended ''module''
      = Some (JString (rel @ ''/esm5/'' @ last segments @ ''.js''))"
    and es2015: "map_of ?amended ''es2015''
      = Some (JString (rel @ ''/esm2015/'' @ last segments @ ''.js''))"
    and typings: "map_of ?amended ''typings''
      = Some (JString (''./'' @ last segments @ ''.d.ts''))"
    by (simp_all add: map_of_set_property)
  note members = amended_member [OF main] amended_member [OF module]
    amended_member [OF es2015] amended_member [OF typings]
  show ?thesis
    using eq returned main module es2015 typings members [unfolded quoted_keys] core_amended
    by (intro conjI exI [of _ ?amended]) simp_all
qed

theorem amendPackageJson_fields_witness:
  \<open>amendPackageJson (example_host []) ''package.json''
       ''{"name": "@angular/common/http", "version": "0.0.0-PLACEHOLDER"}''
     = Inr (''{\<newline>'' @
                  ''  "name": "@angular/common/http",\<newline>'' @
                  ''  "version": "0.0.0-PLACEHOLDER",\<newline>'' @
                  ''  "main": "../bundles/common-http.umd.js",\<newline>'' @
                  ''  "module": "../esm5/http.js",\<newline>'' @
                  ''  "es2015": "../esm2015/http.js",\<newline>'' @
                  ''  "typings": "./http.d.ts"\<newline>'' @
                  ''}'')\<close>
  using amendPackageJson_fields
          [of "example_host []" \<open>''{"name": "@angular/common/http", "version": "0.0.0-PLACEHOLDER"}''\<close>
              "[(''name'', JString ''@angular/common/http''),
                (''version'', JString ''0.0.0-PLACEHOLDER'')]"
              "''@angular/common/http''" "[''common'', ''http'']" "''..''" "''package.json''"]
  by (simp only: http_amended)

lemma serialize_object:
  assumes "kvs \<noteq> []"
  shows "SerializeJSONProperty ''  '' indent (JObject kvs)
     = ''{'' @ ''\<newline>'' @ indent @ ''  ''
       @ js_join ('','' @ ''\<newline>'' @ indent @ ''  '')
           (map (\<lambda>kv. QuoteJSONString (fst kv) @ '': ''
                        @ SerializeJSONProperty ''  '' (indent @ ''  '') (snd kv)) kvs)
       @ ''\<newline>'' @ indent @ ''}''"
  using assms by (simp add: Let_def)

lemma serialize_array:
  assumes "xs \<noteq> []"
  shows "SerializeJSONProperty ''  '' indent (JArray xs)
     = ''['' @ ''\<newline>'' @ indent @ ''  ''
       @ js_join ('','' @ ''\<newline>'' @ indent @ ''  '')
           (map (SerializeJSONProperty ''  '' (indent @ ''  '')) xs)
       @ ''\<newline>'' @ indent @ '']''"
  using assms by (simp add: Let_def)

lemma nested_run:
  "amendPackageJson h filePath nested_descriptor = Inr nested_amended"
  by code_simp

lemma nested_parse:
  "JSON_parse (number_to_string (example_host [])) nested_descriptor
     = Inr (JObject [(''7'', JBool True),
                     (''name'', JString ''@angular/common/http''),
                     (''version'', JString ''0.0.0-PLACEHOLDER''),
                     (''main'', JString ''index.js''),
                     (''peerDependencies'',
                      JObject [(''rxjs'', JString ''^5.5.0''),
                               (''nested'',
                                JObject [(''deep'', JArray [JNumber ''1'', JObject [(''x'', JNull)]])])]),
                     (''files'', JArray [JString ''a'', JString ''b'']),
                     (''sideEffects'', JBool False)])"
  by code_simp

lemma nested_end: "last nested_amended = CHR ''}'' \<and> \<not> endsWith nested_amended ''\<newline>''"
  by code_simp

text \<open>
  Claim C4, as amended. For a well-formed descriptor (the text of an object with a
  string \<open>name\<close> that is more than a scope) the result of \<open>amendPackageJson\<close> is the
  serialization of the object that \<open>JSON.parse\<close> makes of the text, with the four fields
  set. That object has the keys of the text, each once: first those that are array
  indexes, in ascending order, then the others in the order in which they first appear;
  a key that the text repeats has its last value. So where the text has no key twice
  and no array index as a key, the properties are its members, in the order of the
  text. The properties other than \<open>main\<close>, \<open>module\<close>, \<open>es2015\<close> and \<open>typings\<close> keep
  this order and their values; the four keep their place where the descriptor has them
  and otherwise follow at the end, in this order. The text is pretty-printed with two
  spaces of indentation for each level of nesting: an object or an array that is not
  empty has its members one a line, two spaces deeper than the line of its closing
  bracket. The last character of the text is the closing brace: no newline follows it.
\<close>

theorem amendPackageJson_output:
  assumes "JSON_parse (number_to_string h) content = Inr (JObject parsedPackage)"
    and "map_of parsedPackage ''name'' = Some (JString name)"
    and "(if startsWith (hd (js_split ''/'' name)) ''@''
          then tl (js_split ''/'' name) else js_split ''/'' name) \<noteq> []"
  shows "(\<exists>members amended.
           parse_document content = Inr (JObject members) \<and>
           parsedPackage = own_properties (map (\<lambda>kv. (fst kv, value_of (number_to_string h) (snd kv))) members) \<and>
           map fst parsedPackage
             = sort_key int_of_digits
                 (filter is_array_index (rev (remdups (rev (map fst members)))))
               @ filter (\<lambda>k. \<not> is_array_index k) (rev (remdups (rev (map fst members)))) \<and>
           (\<forall>k. map_of parsedPackage k = map_of (rev (map (\<lambda>kv. (fst kv, value_of (number_to_string h) (snd kv))) members)) k) \<and>
           (distinct (map fst members) \<and> (\<forall>k \<in> set (map fst members). \<not> is_array_index k) \<longrightarrow>
              parsedPackage = (map (\<lambda>kv. (fst kv, value_of (number_to_string h) (snd kv))) members)) \<and>
           amendPackageJson h filePath content = Inr (JSON_stringify (JObject amended) 2) \<and>
           filter (\<lambda>kv. fst kv \<notin> {''main'', ''module'', ''es2015'', ''typings''}) amended
             = filter (\<lambda>kv. fst kv \<notin> {''main'', ''module'', ''es2015'', ''typings''}) parsedPackage \<and>
           map fst amended
             = map fst parsedPackage
               @ filter (\<lambda>k. k \<notin> fst ` set parsedPackage)
                   [''main'', ''module'', ''es2015'', ''typings''] \<and>
           JSON_stringify (JObject amended) 2
             = ''{\<newline>  ''
               @ js_join '',\<newline>  '' (map
                           (\<lambda>kv. QuoteJSONString (fst kv) @ '': '' @ SerializeJSONProperty ''  '' ''  '' (snd kv)) amended)
               @ ''\<newline>}'' \<and>
           last (JSON_stringify (JObject amended) 2) = CHR ''}'') \<and>
         (kvs \<noteq> [] \<longrightarrow>
            SerializeJSONProperty ''  '' indent (JObject kvs)
              = ''{'' @ ''\<newline>'' @ indent @ ''  ''
                @ js_join ('','' @ ''\<newline>'' @ indent @ ''  '')
                    (map (\<lambda>kv. QuoteJSONString (fst kv) @ '': ''
                                 @ SerializeJSONProperty ''  '' (indent @ ''  '') (snd kv)) kvs)
                @ ''\<newline>'' @ indent @ ''}'') \<and>
         (xs \<noteq> [] \<longrightarrow>
            SerializeJSONProperty ''  '' indent (JArray xs)
              = ''['' @ ''\<newline>'' @ indent @ ''  ''
                @ js_join ('','' @ ''\<newline>'' @ indent @ ''  '')
                    (map (SerializeJSONProperty ''  '' (indent @ ''  '')) xs)
                @ ''\<newline>'' @ indent @ '']'') \<and>
         amendPackageJson h filePath nested_descriptor = Inr nested_amended"
proof -
  let ?segments = "if startsWith (hd (js_split ''/'' name)) ''@''
                   then tl (js_split ''/'' name) else js_split ''/'' name"
  let ?rel = "if length ?segments = 1 then ''.''
              else js_join ''/'' (replicate (length ?segments - 1) ''..'')"
  let ?amended = "set_property ''typings'' (JString (''./'' @ last ?segments @ ''.d.ts''))
           (set_property ''es2015'' (JString (?rel @ ''/esm2015/'' @ last ?segments @ ''.js''))
             (set_property ''module'' (JString (?rel @ ''/esm5/'' @ last ?segments @ ''.js''))
               (set_property ''main''
                  (JString (?rel @ ''/bundles/'' @ js_join ''-'' ?segments @ ''.umd.js''))
                  parsedPackage)))"
  obtain members where m: "parse_document content = Inr (JObject members)"
    "parsedPackage = own_properties (map (\<lambda>kv. (fst kv, value_of (number_to_string h) (snd kv))) members)"
    using JSON_parse_object [OF assms(1)] by blast
  have k: "map fst (map (\<lambda>kv. (fst kv, value_of (number_to_string h) (snd kv))) members) = map fst members"
    by (simp add: comp_def)
  have keys: "map fst parsedPackage
             = sort_key int_of_digits
                 (filter is_array_index (rev (remdups (rev (map fst members)))))
               @ filter (\<lambda>k. \<not> is_array_index k) (rev (remdups (rev (map fst members))))"
    unfolding m(2) own_properties_keys k ..
  have "values": "\<forall>k. map_of parsedPackage k = map_of (rev (map (\<lambda>kv. (fst kv, value_of (number_to_string h) (snd kv))) members)) k"
    unfolding m(2) own_properties_values by simp
  have plain: "distinct (map fst members) \<and> (\<forall>k \<in> set (map fst members). \<not> is_array_index k) \<longrightarrow>
      parsedPackage = (map (\<lambda>kv. (fst kv, value_of (number_to_string h) (snd kv))) members)"
  proof
    assume "distinct (map fst members) \<and> (\<forall>k \<in> set (map fst members). \<not> is_array_index k)"
    then have "distinct (map fst (map (\<lambda>kv. (fst kv, value_of (number_to_string h) (snd kv))) members))"
      and "\<forall>k \<in> set (map fst (map (\<lambda>kv. (fst kv, value_of (number_to_string h) (snd kv))) members)). \<not> is_array_index k"
      unfolding k by simp_all
    then show "parsedPackage = (map (\<lambda>kv. (fst kv, value_of (number_to_string h) (snd kv))) members)"
      unfolding m(2) by (rule own_properties_plain)
  qed
  have eq: "amend_fields parsedPackage = Inr ?amended"
    by (rule amend_fields_eq [OF assms(2) refl assms(3) refl])
  have out: "amendPackageJson h filePath content = Inr (JSON_stringify (JObject ?amended) 2)"
    using assms(1) eq by (simp add: amendPackageJson_def)
  have shape: "JSON_stringify (JObject ?amended) 2
             = ''{\<newline>  ''
               @ js_join '',\<newline>  '' (map
                           (\<lambda>kv. QuoteJSONString (fst kv) @ '': '' @ SerializeJSONProperty ''  '' ''  '' (snd kv)) ?amended)
               @ ''\<newline>}''"
    by (rule stringify_object_2 [OF set_property_not_Nil])
  have "last (JSON_stringify (JObject ?amended) 2) = CHR ''}''"
    unfolding shape by simp
  with m keys "values" plain out shape amended_keys amended_others
  have "\<exists>members amended.
           parse_document content = Inr (JObject members) \<and>
           parsedPackage = own_properties (map (\<lambda>kv. (fst kv, value_of (number_to_string h) (snd kv))) members) \<and>
           map fst parsedPackage
             = sort_key int_of_digits
                 (filter is_array_index (rev (remdups (rev (map fst members)))))
               @ filter (\<lambda>k. \<not> is_array_index k) (rev (remdups (rev (map fst members)))) \<and>
           (\<forall>k. map_of parsedPackage k = map_of (rev (map (\<lambda>kv. (fst kv, value_of (number_to_string h) (snd kv))) members)) k) \<and>
           (distinct (map fst members) \<and> (\<forall>k \<in> set (map fst members). \<not> is_array_index k) \<longrightarrow>
              parsedPackage = (map (\<lambda>kv. (fst kv, value_of (number_to_string h) (snd kv))) members)) \<and>
           amendPackageJson h filePath content = Inr (JSON_stringify (JObject amended) 2) \<and>
           filter (\<lambda>kv. fst kv \<notin> {''main'', ''module'', ''es2015'', ''typings''}) amended
             = filter (\<lambda>kv. fst kv \<notin> {''main'', ''module'', ''es2015'', ''typings''}) parsedPackage \<and>
           map fst amended
             = map fst parsedPackage
               @ filter (\<lambda>k. k \<notin> fst ` set parsedPackage)
                   [''main'', ''module'', ''es2015'', ''typings''] \<and>
           JSON_stringify (JObject amended) 2
             = ''{\<newline>  ''
               @ js_join '',\<newline>  '' (map
                           (\<lambda>kv. QuoteJSONString (fst kv) @ '': '' @ SerializeJSONProperty ''  '' ''  '' (snd kv)) amended)
               @ ''\<newline>}'' \<and>
           last (JSON_stringify (JObject amended) 2) = CHR ''}''"
    by blast
  then show ?thesis
    using serialize_object serialize_array nested_run by blast
qed

theorem amendPackageJson_output_witness:
  "amendPackageJson (example_host []) ''package.json'' nested_descriptor = Inr nested_amended \<and>
   last nested_amended = CHR ''}''"
  using amendPackageJson_output
          [of "example_host []" nested_descriptor
              "[(''7'', JBool True),
                (''name'', JString ''@angular/common/http''),
                (''version'', JString ''0.0.0-PLACEHOLDER''),
                (''main'', JString ''index.js''),
                (''peerDependencies'',
                 JObject [(''rxjs'', JString ''^5.5.0''),
                          (''nested'',
                           JObject [(''deep'', JArray [JNumber ''1'', JObject [(''x'', JNull)]])])]),
                (''files'', JArray [JString ''a'', JString ''b'']),
                (''sideEffects'', JBool False)]"
              "''@angular/common/http''" "''package.json''"]
        nested_parse nested_end
  by (simp add: startsWith_def)

lemma core_end:
  \<open>last (''{\<newline>'' @
         ''  "name": "@angular/core",\<newline>'' @
         ''  "main": "./bundles/core.umd.js",\<newline>'' @
         ''  "module": "./esm5/core.js",\<newline>'' @
         ''  "es2015": "./esm2015/core.js",\<newline>'' @
         ''  "typings": "./core.d.ts"\<newline>'' @
         ''}'') = CHR ''}'' \<and>
   \<not> endsWith (''{\<newline>'' @
         ''  "name": "@angular/core",\<newline>'' @
         ''  "main": "./bundles/core.umd.js",\<newline>'' @
         ''  "module": "./esm5/core.js",\<newline>'' @
         ''  "es2015": "./esm2015/core.js",\<newline>'' @
         ''  "typings": "./core.d.ts"\<newline>'' @
         ''}'') ''\<newline>''\<close>
  by code_simp

lemma index_amended:
  \<open>amendPackageJson (example_host []) ''package.json'' ''{"name":"core","0":"zero"}''
     = Inr (''{\<newline>'' @
         ''  "0": "zero",\<newline>'' @
         ''  "name": "core",\<newline>'' @
         ''  "main": "./bundles/core.umd.js",\<newline>'' @
         ''  "module": "./esm5/core.js",\<newline>'' @
         ''  "es2015": "./esm2015/core.js",\<newline>'' @
         ''  "typings": "./core.d.ts"\<newline>'' @
         ''}'')\<close>
  by code_simp

text \<open>
  The claim as the specification states it fails on every descriptor: the text that
  \<open>JSON.stringify(parsedPackage, null, 2)\<close> returns for \<open>{"name":"@angular/core"}\<close> ends
  with the closing brace, not with a newline. And a key that is an array index does not
  keep its place: in \<open>{"name":"core","0":"zero"}\<close> the property \<open>0\<close> follows \<open>name\<close>,
  and in the text returned it comes first.
\<close>

theorem amendPackageJson_newline_counterexample:
  \<open>amendPackageJson (example_host []) ''package.json'' ''{"name":"@angular/core"}''
     = Inr (''{\<newline>'' @
         ''  "name": "@angular/core",\<newline>'' @
         ''  "main": "./bundles/core.umd.js",\<newline>'' @
         ''  "module": "./esm5/core.js",\<newline>'' @
         ''  "es2015": "./esm2015/core.js",\<newline>'' @
         ''  "typings": "./core.d.ts"\<newline>'' @
         ''}'') \<and>
   last (''{\<newline>'' @
         ''  "name": "@angular/core",\<newline>'' @
         ''  "main": "./bundles/core.umd.js",\<newline>'' @
         ''  "module": "./esm5/core.js",\<newline>'' @
         ''  "es2015": "./esm2015/core.js",\<newline>'' @
         ''  "typings": "./core.d.ts"\<newline>'' @
         ''}'') = CHR ''}'' \<and>
   \<not> endsWith (''{\<newline>'' @
         ''  "name": "@angular/core",\<newline>'' @
         ''  "main": "./bundles/core.umd.js",\<newline>'' @
         ''  "module": "./esm5/core.js",\<newline>'' @
         ''  "es2015": "./esm2015/core.js",\<newline>'' @
         ''  "typings": "./core.d.ts"\<newline>'' @
         ''}'') ''\<newline>'' \<and>
   amendPackageJson (example_host []) ''package.json'' ''{"name":"core","0":"zero"}''
     = Inr (''{\<newline>'' @
         ''  "0": "zero",\<newline>'' @
         ''  "name": "core",\<newline>'' @
         ''  "main": "./bundles/core.umd.js",\<newline>'' @
         ''  "module": "./esm5/core.js",\<newline>'' @
         ''  "es2015": "./esm2015/core.js",\<newline>'' @
         ''  "typings": "./core.d.ts"\<newline>'' @
         ''}'')\<close>
  using core_amended [of "example_host []" "''package.json''"] core_end index_amended
  by (intro conjI) simp_all

subsection \<open>Version placeholders\<close>

lemma join_split_match:
  "js_join v (js_split (d # ds) ((d # ds) @ cs)) = v @ js_join v (js_split (d # ds) cs)"
proof -
  obtain y ys where "js_split (d # ds) cs = y # ys"
    using js_split_not_Nil [of "d # ds" cs] by (cases "js_split (d # ds) cs") auto
  then show ?thesis by simp
qed

lemma join_split_other:
  assumes "\<not> prefix (d # ds) (c # cs)"
  shows "js_join v (js_split (d # ds) (c # cs)) = c # js_join v (js_split (d # ds) cs)"
proof -
  obtain y ys where y: "js_split (d # ds) cs = y # ys"
    using js_split_not_Nil [of "d # ds" cs] by (cases "js_split (d # ds) cs") auto
  have "js_split (d # ds) (c # cs) = (c # y) # ys"
    using assms y by auto
  then show ?thesis using y by (cases ys) auto
qed

lemma GetSubstitution_plain:
  "CHR ''$'' \<notin> set replacement \<Longrightarrow> GetSubstitution matched preceding following replacement = replacement"
  by (induction matched preceding following replacement rule: GetSubstitution.induct) auto

lemma replace_global_no_match:
  "\<forall>n. \<not> matches_at (a # as) (drop n s) \<Longrightarrow> replace_global (a # as) v preceding s = s"
proof (induction s arbitrary: preceding)
  case Nil
  then show ?case by simp
next
  case (Cons c cs)
  have "\<not> matches_at (a # as) (c # cs)"
    using Cons.prems [rule_format, of 0] by simp
  moreover have "\<forall>n. \<not> matches_at (a # as) (drop n cs)"
  proof
    fix n show "\<not> matches_at (a # as) (drop n cs)"
      using Cons.prems [rule_format, of "Suc n"] by simp
  qed
  ultimately show ?case
    using Cons.IH by (simp del: matches_at.simps)
qed


lemma replace_global_literal:
  assumes "CHR ''$'' \<notin> set v"
    and "\<forall>n. matches_at (a # as) (drop n s) \<longrightarrow> prefix (d # ds) (drop n s)"
    and "\<And>t. prefix (d # ds) t \<Longrightarrow> matches_at (a # as) t"
    and "length ds = length as"
  shows "replace_global (a # as) v preceding s = js_join v (js_split (d # ds) s)"
  using assms(2)
proof (induction s arbitrary: preceding rule: length_induct)
  case (1 s)
  show ?case
  proof (cases s)
    case Nil
    then show ?thesis by simp
  next
    case (Cons c cs)
    show ?thesis
    proof (cases "matches_at (a # as) (c # cs)")
      case True
      then have p: "prefix (d # ds) (c # cs)"
        using "1.prems" [rule_format, of 0] Cons by simp
      then obtain rest where rest: "c # cs = (d # ds) @ rest"
        by (auto simp: prefix_def)
      then have r: "drop (length as) cs = rest"
        using assms(4) by simp
      have s: "s = (d # ds) @ rest"
        using rest Cons by simp
      have sub: "\<forall>n. matches_at (a # as) (drop n rest) \<longrightarrow> prefix (d # ds) (drop n rest)"
      proof
        fix n
        have e: "drop (n + length (d # ds)) s = drop n rest"
          unfolding s by simp
        show "matches_at (a # as) (drop n rest) \<longrightarrow> prefix (d # ds) (drop n rest)"
          using "1.prems" [rule_format, of "n + length (d # ds)"] unfolding e by blast
      qed
      have "length rest < length s"
        unfolding s by simp
      then have ih: "replace_global (a # as) v (preceding @ c # take (length as) cs) rest
          = js_join v (js_split (d # ds) rest)"
        using "1.IH" sub by blast
      have "replace_global (a # as) v preceding (c # cs)
          = v @ replace_global (a # as) v (preceding @ c # take (length as) cs) rest"
        using True r by (simp del: matches_at.simps add: GetSubstitution_plain [OF assms(1)])
      also have "\<dots> = v @ js_join v (js_split (d # ds) rest)"
        by (simp only: ih)
      also have "\<dots> = js_join v (js_split (d # ds) ((d # ds) @ rest))"
        by (rule join_split_match [symmetric])
      finally show ?thesis
        unfolding Cons rest .
    next
      case False
      then have np: "\<not> prefix (d # ds) (c # cs)"
        using assms(3) by blast
      have sub: "\<forall>n. matches_at (a # as) (drop n cs) \<longrightarrow> prefix (d # ds) (drop n cs)"
      proof
        fix n show "matches_at (a # as) (drop n cs) \<longrightarrow> prefix (d # ds) (drop n cs)"
          using "1.prems" [rule_format, of "Suc n"] Cons by simp
      qed
      have "length cs < length s" using Cons by simp
      then have ih: "replace_global (a # as) v (preceding @ [c]) cs = js_join v (js_split (d # ds) cs)"
        using "1.IH" sub by blast
      have "replace_global (a # as) v preceding (c # cs)
          = c # replace_global (a # as) v (preceding @ [c]) cs"
        using False by (simp del: matches_at.simps)
      also have "\<dots> = c # js_join v (js_split (d # ds) cs)"
        by (simp only: ih)
      also have "\<dots> = js_join v (js_split (d # ds) (c # cs))"
        by (rule join_split_other [OF np, symmetric])
      finally show ?thesis
        unfolding Cons .
    qed
  qed
qed

lemma sentinel_matches:
  "prefix ''0.0.0-PLACEHOLDER'' t \<Longrightarrow> matches_at (RegExp (''0.0.0'' @ ''-PLACEHOLDER'')) t"
  by (auto simp: prefix_def RegExp_def is_line_terminator_def)


lemma has_match_drop: "\<not> has_match re s \<Longrightarrow> \<not> matches_at re (drop n s)"
proof (induction s arbitrary: n)
  case Nil
  then show ?case by simp
next
  case (Cons c cs)
  then show ?case by (cases n) (simp_all del: matches_at.simps)
qed

lemma matches_are_literal_drop:
  "matches_are_literal re literal s \<Longrightarrow> matches_at re (drop n s) \<Longrightarrow> prefix literal (drop n s)"
proof (induction s arbitrary: n)
  case Nil
  then show ?case by simp
next
  case (Cons c cs)
  then show ?case by (cases n) (simp_all del: matches_at.simps)
qed

lemma sentinel_regex:
  "RegExp (''0.0.0'' @ ''-PLACEHOLDER'')
     = Lit CHR ''0'' # map (\<lambda>c. if c = CHR ''.'' then AnyChar else Lit c) ''.0.0-PLACEHOLDER''"
  by (simp add: RegExp_def)

lemma replace_sentinel_literal:
  assumes "CHR ''$'' \<notin> set v"
    and "matches_are_literal (RegExp (''0.0.0'' @ ''-PLACEHOLDER'')) ''0.0.0-PLACEHOLDER'' content"
  shows "replace_global (RegExp (''0.0.0'' @ ''-PLACEHOLDER'')) v [] content
           = js_join v (js_split ''0.0.0-PLACEHOLDER'' content)"
proof -
  have lit: "\<forall>n. matches_at (RegExp (''0.0.0'' @ ''-PLACEHOLDER'')) (drop n content) \<longrightarrow>
                 prefix ''0.0.0-PLACEHOLDER'' (drop n content)"
    using matches_are_literal_drop [OF assms(2)] by blast
  have len: "length ''.0.0-PLACEHOLDER'' =
     length (map (\<lambda>c. if c = CHR ''.'' then AnyChar else Lit c) ''.0.0-PLACEHOLDER'')"
    by (simp only: length_map)
  show ?thesis
    unfolding sentinel_regex
    by (rule replace_global_literal [OF assms(1) lit [unfolded sentinel_regex]
               sentinel_matches [unfolded sentinel_regex] len])
qed

lemma replace_sentinel_no_match:
  assumes "\<not> has_match (RegExp (''0.0.0'' @ ''-PLACEHOLDER'')) s"
  shows "replace_global (RegExp (''0.0.0'' @ ''-PLACEHOLDER'')) v [] s = s"
proof -
  have "\<forall>n. \<not> matches_at (RegExp (''0.0.0'' @ ''-PLACEHOLDER'')) (drop n s)"
    using has_match_drop [OF assms] by blast
  then show ?thesis
    unfolding sentinel_regex by (rule replace_global_no_match)
qed

text \<open>
  Claim C8, as amended. Without stamp data (none, or the empty string)
  \<open>replaceVersionPlaceholders\<close> returns the content as it is. With stamp data and a
  version extracted from it, if the version has no dollar sign and the content has no
  match of the pattern other than the sentinel literal itself, the result is the content
  with every occurrence of the literal replaced by the version, that is, the content
  split at the literal and joined by the version. A second application with the same
  version returns the result of the first whenever that result has no match of the
  pattern.
\<close>

theorem replaceVersionPlaceholders_substitution:
  "(stampData ps = None \<or> stampData ps = Some [] \<longrightarrow>
      replaceVersionPlaceholders h ps filePath content = Inr content) \<and>
   (\<forall>stamp label field rest.
      stampData ps = Some stamp \<and> stamp \<noteq> [] \<and>
      js_split '' '' (grep h ''BUILD_SCM_VERSION'' stamp) = label # field # rest \<longrightarrow>
        (CHR ''$'' \<notin> set (js_trim field) \<and>
         matches_are_literal (RegExp (''0.0.0'' @ ''-PLACEHOLDER'')) ''0.0.0-PLACEHOLDER'' content \<longrightarrow>
           replaceVersionPlaceholders h ps filePath content
             = Inr (js_join (js_trim field) (js_split ''0.0.0-PLACEHOLDER'' content))) \<and>
        (\<forall>once. replaceVersionPlaceholders h ps filePath content = Inr once \<and>
                \<not> has_match (RegExp (''0.0.0'' @ ''-PLACEHOLDER'')) once \<longrightarrow>
           replaceVersionPlaceholders h ps filePath once = Inr once))"
proof -
  have absent: "stampData ps = None \<or> stampData ps = Some [] \<longrightarrow>
      replaceVersionPlaceholders h ps filePath content = Inr content"
    by (auto simp: replaceVersionPlaceholders_def)
  have present: "replaceVersionPlaceholders h ps filePath subject
      = Inr (replace_global (RegExp (''0.0.0'' @ ''-PLACEHOLDER'')) (js_trim field) [] subject)"
    if "stampData ps = Some stamp" "stamp \<noteq> []"
      "js_split '' '' (grep h ''BUILD_SCM_VERSION'' stamp) = label # field # rest"
    for stamp label field rest subject
    using that by (simp add: replaceVersionPlaceholders_def Let_def del: js_split.simps)
  show ?thesis
    using absent present replace_sentinel_literal replace_sentinel_no_match
    by (metis (no_types, lifting))
qed

theorem replaceVersionPlaceholders_substitution_witness:
  "replaceVersionPlaceholders (stamp_host ''5.2.0'') example_params ''package.json''
     ''{version: 0.0.0-PLACEHOLDER, peer: 0.0.0-PLACEHOLDER}''
     = Inr ''{version: 0.0.0-PLACEHOLDER, peer: 0.0.0-PLACEHOLDER}'' \<and>
   replaceVersionPlaceholders (stamp_host ''5.2.0'') stamped_params ''package.json''
     ''{version: 0.0.0-PLACEHOLDER, peer: 0.0.0-PLACEHOLDER}''
     = Inr ''{version: 5.2.0, peer: 5.2.0}'' \<and>
   replaceVersionPlaceholders (stamp_host ''5.2.0'') stamped_params ''package.json''
     ''{version: 5.2.0, peer: 5.2.0}''
     = Inr ''{version: 5.2.0, peer: 5.2.0}''"
  using replaceVersionPlaceholders_substitution
          [of example_params "stamp_host ''5.2.0''" "''package.json''"
              "''{version: 0.0.0-PLACEHOLDER, peer: 0.0.0-PLACEHOLDER}''"]
        replaceVersionPlaceholders_substitution
          [of stamped_params "stamp_host ''5.2.0''" "''package.json''"
              "''{version: 0.0.0-PLACEHOLDER, peer: 0.0.0-PLACEHOLDER}''"]
  by (simp add: stamp_host_def stamped_params_def example_params_def example_host_def
        replaceVersionPlaceholders_def js_trim_def is_js_space_def RegExp_def
        is_line_terminator_def)

text \<open>
  The claim as the specification states it fails where the version brings the sentinel
  back: with the version \<open>0.0.0-PLACEHOLDER+1\<close> the second application replaces the
  sentinel inside the version that the first one wrote.
\<close>

theorem replaceVersionPlaceholders_idempotence_counterexample:
  "replaceVersionPlaceholders (stamp_host ''0.0.0-PLACEHOLDER+1'') stamped_params
     ''package.json'' ''0.0.0-PLACEHOLDER'' = Inr ''0.0.0-PLACEHOLDER+1'' \<and>
   replaceVersionPlaceholders (stamp_host ''0.0.0-PLACEHOLDER+1'') stamped_params
     ''package.json'' ''0.0.0-PLACEHOLDER+1'' = Inr ''0.0.0-PLACEHOLDER+1+1''"
  by (simp add: stamp_host_def stamped_params_def example_params_def example_host_def
        replaceVersionPlaceholders_def js_trim_def is_js_space_def RegExp_def
        is_line_terminator_def)

subsection \<open>What \<open>main\<close> writes\<close>

lemma filter_declarations_without_metadata:
  "filter (filter_ext ''.d.ts'') (filter (\<lambda>f. \<not> is_metadata_artifact f) xs)
     = filter (filter_ext ''.d.ts'') xs"
  by (induction xs) (auto simp: is_metadata_artifact_def filter_ext_def declaration_not_metadata)

lemma filter_bundle_index_without_metadata:
  "filter (filter_ext ''.bundle_index.metadata.json'') (filter (\<lambda>f. \<not> is_metadata_artifact f) xs)
     = filter (filter_ext ''.bundle_index.metadata.json'') xs"
  by (induction xs) (auto simp: is_metadata_artifact_def filter_ext_def)

lemma perform_emits:
  assumes "perform h calls s = Inr s'"
  shows "s' = emit calls s"
  using assms by (simp add: perform_def split: if_splits)

lemma file_system_after_find_R [simp]:
  "file_system_after (h\<lparr>find_R := g\<rparr>) = file_system_after h"
  by (simp add: file_system_after_def fun_eq_iff)

lemma perform_find_R [simp]:
  "perform (h\<lparr>find_R := g\<rparr>) = perform h"
  by (simp add: perform_def fun_eq_iff)

lemma moveBundleIndex_find_R [simp]:
  "moveBundleIndex (h\<lparr>find_R := g\<rparr>) = moveBundleIndex h"
  by (simp add: moveBundleIndex_def fun_eq_iff Let_def
        cong: sum.case_cong option.case_cong list.case_cong json.case_cong if_cong)

lemma replaceVersionPlaceholders_find_R [simp]:
  "replaceVersionPlaceholders (h\<lparr>find_R := g\<rparr>) = replaceVersionPlaceholders h"
  by (simp add: replaceVersionPlaceholders_def fun_eq_iff Let_def
        cong: sum.case_cong option.case_cong list.case_cong json.case_cong if_cong)

lemma amendPackageJson_find_R [simp]:
  "amendPackageJson (h\<lparr>find_R := g\<rparr>) = amendPackageJson h"
  by (simp add: amendPackageJson_def fun_eq_iff Let_def
        cong: sum.case_cong option.case_cong list.case_cong json.case_cong if_cong)

lemma write_declaration_find_R [simp]:
  "write_declaration (h\<lparr>find_R := g\<rparr>) = write_declaration h"
  by (simp add: write_declaration_def fun_eq_iff Let_def
        cong: sum.case_cong option.case_cong list.case_cong json.case_cong if_cong)

lemma write_source_find_R [simp]:
  "write_source (h\<lparr>find_R := g\<rparr>) = write_source h"
  by (simp add: write_source_def fun_eq_iff Let_def
        cong: sum.case_cong option.case_cong list.case_cong json.case_cong if_cong)

lemma write_bundle_index_metadata_find_R [simp]:
  "write_bundle_index_metadata (h\<lparr>find_R := g\<rparr>) = write_bundle_index_metadata h"
  by (simp add: write_bundle_index_metadata_def fun_eq_iff Let_def
        cong: sum.case_cong option.case_cong list.case_cong json.case_cong if_cong)

lemma read_license_find_R [simp]:
  "read_license (h\<lparr>find_R := g\<rparr>) = read_license h"
  by (simp add: read_license_def fun_eq_iff Let_def
        cong: sum.case_cong option.case_cong list.case_cong json.case_cong if_cong)

lemma write_redirects_find_R [simp]:
  "write_redirects (h\<lparr>find_R := g\<rparr>) = write_redirects h"
  by (simp add: write_redirects_def fun_eq_iff)

lemma package_without_metadata: "package (without_metadata h) ps = package h ps"
  by (simp add: package_def without_metadata_def Let_def filter_declarations_without_metadata
        filter_bundle_index_without_metadata del: filter_filter
        cong: sum.case_cong if_cong)


lemma for_each_storage:
  assumes "\<forall>x s s'. body x s = Inr s' \<longrightarrow> prefix (storage s) (storage s')"
    and "for_each body xs st = Inr st'"
  shows "prefix (storage st) (storage st')"
  using assms(2)
proof (induction xs arbitrary: st)
  case Nil
  then show ?case by simp
next
  case (Cons x xs)
  then obtain s where s: "body x st = Inr s" "for_each body xs s = Inr st'"
    by (auto split: sum.splits)
  then show ?case
    using assms(1) Cons.IH [OF s(2)] by (meson prefix_order.trans)
qed

lemma for_each_member:
  assumes "\<forall>x s s'. body x s = Inr s' \<longrightarrow> prefix (storage s) (storage s')"
    and "for_each body xs st = Inr st'" and "x \<in> set xs"
  shows "\<exists>s s'. body x s = Inr s' \<and> prefix (storage s') (storage st')"
  using assms(2,3)
proof (induction xs arbitrary: st)
  case Nil
  then show ?case by simp
next
  case (Cons y xs)
  then obtain s where s: "body y st = Inr s" "for_each body xs s = Inr st'"
    by (auto split: sum.splits)
  show ?case
  proof (cases "x = y")
    case True
    then show ?thesis
      using s for_each_storage [OF assms(1) s(2)] by blast
  next
    case False
    then show ?thesis
      using Cons.IH [OF s(2)] Cons.prems(2) by simp
  qed
qed

lemma write_declaration_emits:
  assumes "write_declaration h ps f s = Inr s'"
  shows "\<exists>text outputPath. readFileSync h f = Some text \<and>
           (if endsWith f ''.bundle_index.d.ts'' then moveBundleIndex h ps s f
            else Inr (path_join [out ps, path_relative (cwd h) (binDir ps) f])) = Inr outputPath \<and>
           s' = emit [Mkdir (path_dirname outputPath),
                      WriteFile outputPath (strip_amd_module text)] s"
  using assms
  by (auto simp: write_declaration_def Let_def dest: perform_emits
           split: option.splits sum.splits)

lemma write_source_emits:
  assumes "write_source h ps f s = Inr s'"
  shows "\<exists>ops. s' = emit ops s"
  using assms
  by (auto simp: write_source_def Let_def dest: perform_emits
           split: option.splits sum.splits if_splits)

lemma write_bundle_index_metadata_emits:
  assumes "write_bundle_index_metadata h ps f s = Inr s'"
  shows "\<exists>ops. s' = emit ops s"
  using assms
  by (auto simp: write_bundle_index_metadata_def Let_def dest: perform_emits
           split: option.splits sum.splits)

lemma write_declaration_storage:
  "\<forall>f s s'. write_declaration h ps f s = Inr s' \<longrightarrow> prefix (storage s) (storage s')"
  using write_declaration_emits by fastforce

lemma write_source_storage:
  "\<forall>f s s'. write_source h ps f s = Inr s' \<longrightarrow> prefix (storage s) (storage s')"
  using write_source_emits by fastforce

lemma write_bundle_index_metadata_storage:
  "\<forall>f s s'. write_bundle_index_metadata h ps f s = Inr s' \<longrightarrow>
     prefix (storage s) (storage s')"
  using write_bundle_index_metadata_emits by fastforce

lemma write_redirects_all:
  assumes "for_each (write_redirects h ps banner) names st = Inr st'"
  shows "st' = emit (concat (map (redirect_files ps banner) names)) st"
  using assms
proof (induction names arbitrary: st)
  case Nil
  then show ?case by (simp add: emit_def)
next
  case (Cons name names)
  then obtain s where s: "write_redirects h ps banner name st = Inr s"
    "for_each (write_redirects h ps banner) names s = Inr st'"
    by (auto split: sum.splits)
  have "s = emit (redirect_files ps banner name) st"
    using s(1) by (simp add: write_redirects_def perform_emits)
  with Cons.IH [OF s(2)] show ?case
    by (simp add: emit_def)
qed

lemma package_phases:
  assumes "package h ps = Inr st"
  obtains st1 st2 st3 banner where
    "for_each (write_declaration h ps) (filter (filter_ext ''.d.ts'') (find_R h (binDir ps)))
       (prepare ps) = Inr st1"
    "for_each (write_source h ps) (srcs ps) st1 = Inr st2"
    "for_each (write_bundle_index_metadata h ps)
       (filter (filter_ext ''.bundle_index.metadata.json'') (find_R h (binDir ps))) st2 = Inr st3"
    "read_license h ps = Inr banner"
    "st = emit (concat (map (redirect_files ps banner) (secondaryEntryPoints st3))) st3"
  using assms
  by (auto simp: package_def Let_def dest: write_redirects_all split: sum.splits if_splits)

lemma declaration_written:
  assumes "package h ps = Inr st" and "f \<in> set (find_R h (binDir ps))"
    and "is_declaration_artifact f"
  shows "\<exists>text. readFileSync h f = Some text \<and>
           WriteFile (path_join [out ps, path_relative (cwd h) (binDir ps) f])
             (strip_amd_module text) \<in> set (storage st)"
proof -
  obtain st1 st2 st3 banner where p:
    "for_each (write_declaration h ps) (filter (filter_ext ''.d.ts'') (find_R h (binDir ps)))
       (prepare ps) = Inr st1"
    "for_each (write_source h ps) (srcs ps) st1 = Inr st2"
    "for_each (write_bundle_index_metadata h ps)
       (filter (filter_ext ''.bundle_index.metadata.json'') (find_R h (binDir ps))) st2 = Inr st3"
    "read_license h ps = Inr banner"
    "st = emit (concat (map (redirect_files ps banner) (secondaryEntryPoints st3))) st3"
    using package_phases [OF assms(1)] by blast
  have f: "f \<in> set (filter (filter_ext ''.d.ts'') (find_R h (binDir ps)))"
    using assms(2,3) by (simp add: is_declaration_artifact_def)
  obtain s s' where s: "write_declaration h ps f s = Inr s'" "prefix (storage s') (storage st1)"
    using for_each_member [OF write_declaration_storage p(1) f] by blast
  obtain raw where t: "readFileSync h f = Some raw"
    "s' = emit [Mkdir (path_dirname (path_join [out ps, path_relative (cwd h) (binDir ps) f])),
                WriteFile (path_join [out ps, path_relative (cwd h) (binDir ps) f])
                  (strip_amd_module raw)] s"
    using write_declaration_emits [OF s(1)] assms(3) by (auto simp: is_declaration_artifact_def)
  have "prefix (storage st1) (storage st2)"
    by (rule for_each_storage [OF write_source_storage p(2)])
  moreover have "prefix (storage st2) (storage st3)"
    by (rule for_each_storage [OF write_bundle_index_metadata_storage p(3)])
  moreover have "prefix (storage st3) (storage st)"
    unfolding p(5) by simp
  ultimately have "prefix (storage s') (storage st)"
    using s(2) by (meson prefix_order.trans)
  then have "set (storage s') \<subseteq> set (storage st)"
    by (rule set_mono_prefix)
  moreover have "WriteFile (path_join [out ps, path_relative (cwd h) (binDir ps) f])
                  (strip_amd_module raw) \<in> set (storage s')"
    unfolding t(2) by simp
  ultimately show ?thesis
    using t(1) by blast
qed

text \<open>
  Claim C5, as amended. \<open>main\<close> writes no Metadata artifact: a run is the same, call for
  call, when the Metadata artifacts are left out of the listing of the build output. The
  destination \<open>path.join(out, path.relative(binDir, f))\<close> is that of the Declaration
  artifacts: in a run that ends without an exception every Declaration artifact of the
  listing is written there, without its leading \<open>amd-module\<close> line.
\<close>

theorem metadata_artifacts_not_written:
  "package (without_metadata h) ps = package h ps \<and>
   (\<forall>st f. package h ps = Inr st \<and> f \<in> set (find_R h (binDir ps)) \<and>
            is_declaration_artifact f \<longrightarrow>
      (\<exists>text. readFileSync h f = Some text \<and>
           WriteFile (path_join [out ps, path_relative (cwd h) (binDir ps) f])
             (strip_amd_module text) \<in> set (storage st)))"
  using package_without_metadata declaration_written by blast


lemma declaration_run:
  "package (example_host [(''bin/core.metadata.json'', ''{}''), (''bin/core.d.ts'', ''export {}'')])
     example_params
   = Inr \<lparr>primaryEntryPoint = None, secondaryEntryPoints = [],
          storage = [Mkdir ''out'', Mkdir ''out/bundles'', Mkdir ''out'',
                     WriteFile ''out/core.d.ts'' ''export {}'']\<rparr>"
  by code_simp

lemma metadata_run:
  "package (example_host [(''bin/core.metadata.json'', ''{}'')]) example_params
     = Inr \<lparr>primaryEntryPoint = None, secondaryEntryPoints = [],
            storage = [Mkdir ''out'', Mkdir ''out/bundles'']\<rparr>"
  by code_simp

lemma metadata_listing:
  "is_metadata_artifact ''bin/core.metadata.json'' \<and>
   find_R (example_host [(''bin/core.metadata.json'', ''{}'')]) (binDir example_params)
     = [''bin/core.metadata.json'']"
  by code_simp

theorem metadata_artifacts_not_written_witness:
  "package (example_host [(''bin/core.metadata.json'', ''{}''), (''bin/core.d.ts'', ''export {}'')])
     example_params
   = Inr \<lparr>primaryEntryPoint = None, secondaryEntryPoints = [],
          storage = [Mkdir ''out'', Mkdir ''out/bundles'', Mkdir ''out'',
                     WriteFile ''out/core.d.ts'' ''export {}'']\<rparr>"
  using metadata_artifacts_not_written
          [of "example_host [(''bin/core.metadata.json'', ''{}''), (''bin/core.d.ts'', ''export {}'')]"
              example_params]
  by (simp only: declaration_run)

text \<open>
  The claim as the specification states it fails on any Metadata artifact: with
  \<open>bin/core.metadata.json\<close> the only file of the build output, the run creates two
  directories and writes nothing.
\<close>

theorem metadata_artifact_counterexample:
  "is_metadata_artifact ''bin/core.metadata.json'' \<and>
   find_R (example_host [(''bin/core.metadata.json'', ''{}'')]) (binDir example_params)
     = [''bin/core.metadata.json''] \<and>
   package (example_host [(''bin/core.metadata.json'', ''{}'')]) example_params
     = Inr \<lparr>primaryEntryPoint = None, secondaryEntryPoints = [],
            storage = [Mkdir ''out'', Mkdir ''out/bundles'']\<rparr>"
  using metadata_listing metadata_run by (intro conjI) simp_all

subsection \<open>The redirect files of the secondary entry points\<close>

lemma quote_char_one_line: "CHR ''\<newline>'' \<notin> set (quote_char c)"
  by (auto simp: quote_char_def hex_digit_def nth_Cons' split: if_splits)


lemma QuoteJSONString_one_line: "CHR ''\<newline>'' \<notin> set (QuoteJSONString s)"
  using quote_char_one_line by (auto simp: QuoteJSONString_def)

lemma QuoteJSONString_plain:
  "\<forall>c \<in> set s. quote_char c = [c] \<Longrightarrow> QuoteJSONString s = CHR 0x22 # s @ [CHR 0x22]"
proof -
  assume "\<forall>c \<in> set s. quote_char c = [c]"
  then have "concat (map quote_char s) = s"
    by (induction s) auto
  then show ?thesis by (simp add: QuoteJSONString_def)
qed

lemma redirect_metadata_text:
  \<open>redirect_metadata baseName =
     ''{"__symbolic":"module","version":3,"metadata":{},"exports":[{"from":''
     @ QuoteJSONString (''./'' @ baseName @ ''/'' @ baseName)
     @ ''}],"flatModuleIndexRedirect":true}'' @ ''\<newline>''\<close>
proof -
  have q: \<open>QuoteJSONString ''__symbolic'' = ''"__symbolic"''\<close>
      \<open>QuoteJSONString ''module'' = ''"module"''\<close>
      \<open>QuoteJSONString ''version'' = ''"version"''\<close>
      \<open>QuoteJSONString ''metadata'' = ''"metadata"''\<close>
      \<open>QuoteJSONString ''exports'' = ''"exports"''\<close>
      \<open>QuoteJSONString ''from'' = ''"from"''\<close>
      \<open>QuoteJSONString ''flatModuleIndexRedirect'' = ''"flatModuleIndexRedirect"''\<close>
    by (simp_all add: QuoteJSONString_def quote_char_def)
  show ?thesis
    by (simp add: redirect_metadata_def JSON_stringify_def q)
qed

lemma redirect_metadata_one_line:
  "CHR ''\<newline>'' \<notin> set (butlast (redirect_metadata baseName))"
  unfolding redirect_metadata_text
  using QuoteJSONString_one_line [of "''./'' @ baseName @ ''/'' @ baseName"]
  by (simp add: butlast_append)

lemma js_split_char_first:
  "c \<notin> set x \<Longrightarrow> js_split [c] (x @ c # rest) = x # js_split [c] rest"
  by (induction x) auto

lemma js_split_char_none: "c \<notin> set x \<Longrightarrow> js_split [c] x = [x]"
  by (induction x) (auto split: list.splits)

lemma js_split_char_append:
  "js_split [c] (a @ c # b) = js_split [c] a @ js_split [c] b"
proof (induction a)
  case Nil
  then show ?case by simp
next
  case (Cons x a)
  obtain p ps where s: "js_split [c] a = p # ps"
    using js_split_not_Nil [of "[c]" a] by (cases "js_split [c] a") auto
  show ?case
  proof (cases "x = c")
    case True
    then show ?thesis using Cons by simp
  next
    case False
    then show ?thesis using Cons s by simp
  qed
qed

lemma js_split_char_snoc:
  assumes "c \<notin> set x"
  shows "js_split [c] (a @ x) = butlast (js_split [c] a) @ [last (js_split [c] a) @ x]"
proof (induction a)
  case Nil
  then show ?case using assms by (simp add: js_split_char_none)
next
  case (Cons y a)
  obtain p ps where s: "js_split [c] a = p # ps"
    using js_split_not_Nil [of "[c]" a] by (cases "js_split [c] a") auto
  show ?case
  proof (cases "y = c")
    case True
    then show ?thesis using Cons s by simp
  next
    case False
    then show ?thesis using Cons s by (cases ps) simp_all
  qed
qed

lemma is_reexport_line_space: "is_reexport_line (l @ '' '') = is_reexport_line l"
proof (cases "\<forall>c \<in> set l. c = CHR '' ''")
  case True
  then have "dropWhile (\<lambda>c. c = CHR '' '') (l @ '' '') = []"
    and "dropWhile (\<lambda>c. c = CHR '' '') l = []"
    by simp_all
  then show ?thesis unfolding is_reexport_line_def by (simp only:)
next
  case False
  then have d: "dropWhile (\<lambda>c. c = CHR '' '') (l @ '' '') = dropWhile (\<lambda>c. c = CHR '' '') l @ '' ''"
    by (auto simp: dropWhile_append1)
  have "''export * from'' \<noteq> r @ '' ''" for r
  proof
    assume "''export * from'' = r @ '' ''"
    then have "last ''export * from'' = last (r @ '' '')" by (rule arg_cong)
    then show False by simp
  qed
  then have "prefix ''export * from'' (r @ '' '') \<longleftrightarrow> prefix ''export * from'' r" for r
    by (simp add: prefix_snoc)
  then show ?thesis by (simp add: is_reexport_line_def d)
qed

lemma is_reexport_line_statement:
  "is_reexport_line ('' export * from './'' @ rest)"
  by (simp add: is_reexport_line_def)

lemma reexport_lines_count_snoc:
  "length (filter is_reexport_line (butlast ls @ [last ls @ '' ''])) = length (filter is_reexport_line ls)"
  if "ls \<noteq> []" for ls
proof -
  have "ls = butlast ls @ [last ls]" using that by simp
  then have "filter is_reexport_line ls
      = filter is_reexport_line (butlast ls) @ filter is_reexport_line [last ls]"
    by (metis filter_append)
  then show ?thesis by (simp add: is_reexport_line_space)
qed

lemma redirect_typings_split:
  assumes "CHR ''\<newline>'' \<notin> set baseName"
  shows "js_split ''\<newline>'' (redirect_typings banner baseName)
           = butlast (js_split ''\<newline>'' banner) @ [last (js_split ''\<newline>'' banner) @ '' '']
             @ ['' export * from './'' @ baseName @ ''/'' @ baseName @ [CHR 0x27], []]"
proof -
  let ?l = "'' export * from './'' @ baseName @ ''/'' @ baseName @ [CHR 0x27]"
  have 1: "CHR ''\<newline>'' \<notin> set ?l" using assms by simp
  have 2: "CHR ''\<newline>'' \<notin> set '' ''" by simp
  have r: "redirect_typings banner baseName
      = (banner @ '' '') @ CHR ''\<newline>'' # (?l @ CHR ''\<newline>'' # [])"
    by (simp add: redirect_typings_def)
  have a: "js_split ''\<newline>'' ((banner @ '' '') @ CHR ''\<newline>'' # (?l @ CHR ''\<newline>'' # []))
      = js_split ''\<newline>'' (banner @ '' '') @ js_split ''\<newline>'' (?l @ CHR ''\<newline>'' # [])"
    by (rule js_split_char_append)
  have b: "js_split ''\<newline>'' (?l @ CHR ''\<newline>'' # []) = ?l # js_split ''\<newline>'' []"
    by (rule js_split_char_first [OF 1])
  have c: "js_split ''\<newline>'' [] = [[]]" by simp
  have d: "js_split ''\<newline>'' (banner @ '' '')
      = butlast (js_split ''\<newline>'' banner) @ [last (js_split ''\<newline>'' banner) @ '' '']"
    by (rule js_split_char_snoc [OF 2])
  have "js_split ''\<newline>'' (redirect_typings banner baseName)
      = js_split ''\<newline>'' (banner @ '' '') @ js_split ''\<newline>'' (?l @ CHR ''\<newline>'' # [])"
    unfolding r by (rule a)
  also have "\<dots> = (butlast (js_split ''\<newline>'' banner) @ [last (js_split ''\<newline>'' banner) @ '' ''])
                   @ [?l, []]"
    unfolding b c d by (rule refl)
  finally show ?thesis by simp
qed

lemma redirect_typings_count:
  assumes "CHR ''\<newline>'' \<notin> set baseName"
  shows "length (reexport_lines (redirect_typings banner baseName))
           = length (reexport_lines banner) + 1"
proof -
  define before where
    "before = butlast (js_split ''\<newline>'' banner) @ [last (js_split ''\<newline>'' banner) @ '' '']"
  have n: "js_split ''\<newline>'' banner \<noteq> []"
    by (rule js_split_not_Nil) simp
  have b: "length (filter is_reexport_line before) = length (reexport_lines banner)"
    unfolding before_def reexport_lines_def by (rule reexport_lines_count_snoc [OF n])
  have e: "\<not> is_reexport_line []"
    by (simp add: is_reexport_line_def)
  have "js_split ''\<newline>'' (redirect_typings banner baseName)
      = before @ ['' export * from './'' @ baseName @ ''/'' @ baseName @ [CHR 0x27], []]"
    unfolding before_def using redirect_typings_split [OF assms] by simp
  then have "length (reexport_lines (redirect_typings banner baseName))
      = length (filter is_reexport_line before) + 1"
    unfolding reexport_lines_def using is_reexport_line_statement e by simp
  with b show ?thesis by simp
qed

lemma redirect_typings_reexports:
  assumes "CHR ''\<newline>'' \<notin> set baseName" and "reexport_lines banner = []"
  shows "reexport_lines (redirect_typings banner baseName)
           = ['' export * from './'' @ baseName @ ''/'' @ baseName @ [CHR 0x27]]"
proof -
  define before where
    "before = butlast (js_split ''\<newline>'' banner) @ [last (js_split ''\<newline>'' banner) @ '' '']"
  have n: "js_split ''\<newline>'' banner \<noteq> []"
    by (rule js_split_not_Nil) simp
  have "length (filter is_reexport_line before) = length (reexport_lines banner)"
    unfolding before_def reexport_lines_def by (rule reexport_lines_count_snoc [OF n])
  then have b: "filter is_reexport_line before = []"
    using assms(2) by simp
  have e: "\<not> is_reexport_line []"
    by (simp add: is_reexport_line_def)
  have "js_split ''\<newline>'' (redirect_typings banner baseName)
      = before @ ['' export * from './'' @ baseName @ ''/'' @ baseName @ [CHR 0x27], []]"
    unfolding before_def using redirect_typings_split [OF assms(1)] by simp
  then show ?thesis
    unfolding reexport_lines_def using is_reexport_line_statement e b by simp
qed

lemma js_split_char_elements: "x \<in> set (js_split [c] s) \<Longrightarrow> c \<notin> set x"
proof (induction s arbitrary: x)
  case Nil
  then show ?case by simp
next
  case (Cons d s)
  then show ?case
    by (auto split: list.splits if_splits simp: js_split_not_Nil)
qed

lemma js_split_char_subset: "x \<in> set (js_split [c] s) \<Longrightarrow> set x \<subseteq> set s"
proof (induction s arbitrary: x)
  case Nil
  then show ?case by simp
next
  case (Cons d s)
  then show ?case
    by (auto split: list.splits if_splits simp: js_split_not_Nil) fastforce+
qed

lemma replace_dot_rest_subset: "set (replace_dot_rest s) \<subseteq> set s"
proof (induction s)
  case Nil
  then show ?case by simp
next
  case (Cons c s)
  then show ?case
    using set_dropWhileD [of _ "\<lambda>x. \<not> is_line_terminator x" s] by auto
qed

lemma path_basename_subset: "set (path_basename p) \<subseteq> set p"
proof
  fix c
  assume "c \<in> set (path_basename p)"
  then have "c \<in> set (takeWhile (\<lambda>c. c \<noteq> CHR ''/'') (dropWhile (\<lambda>c. c = CHR ''/'') (rev p)))"
    by (simp add: path_basename_def)
  then have "c \<in> set (dropWhile (\<lambda>c. c = CHR ''/'') (rev p))"
    by (rule set_takeWhileD [THEN conjunct1])
  then have "c \<in> set (rev p)"
    by (rule set_dropWhileD)
  then show "c \<in> set p" by simp
qed

lemma entryPointNameOf_subset: "set (entryPointNameOf f) \<subseteq> insert CHR ''/'' (set f)"
proof -
  have "set (entryPointNameOf f) \<subseteq> set (js_join ''/'' (js_split ''__'' (path_basename f)))"
    by (simp add: entryPointNameOf_def replace_dot_rest_subset)
  also have "\<dots> \<subseteq> insert CHR ''/'' (set (path_basename f))"
    by (rule set_flatten)
  also have "\<dots> \<subseteq> insert CHR ''/'' (set f)"
    using path_basename_subset by auto
  finally show ?thesis .
qed

lemma writeFesm_all_names:
  "set (secondaryEntryPoints (writeFesm_all calls st0))
     \<subseteq> set (secondaryEntryPoints st0) \<union> entryPointNameOf ` fst ` set calls"
  unfolding writeFesm_all_def
proof (induction calls rule: rev_induct)
  case Nil
  then show ?case by simp
next
  case (snoc call calls)
  then show ?case
    by (auto simp: secondary_writeFesm set_Set_add)
qed

lemma prepare_names:
  "set (secondaryEntryPoints (prepare ps)) \<subseteq> entryPointNameOf ` set (fesms2015 ps @ fesms5 ps)"
proof -
  let ?calls = "map (\<lambda>f. (f, path_join [out ps, ''esm2015''])) (fesms2015 ps)
                @ map (\<lambda>f. (f, path_join [out ps, ''esm5''])) (fesms5 ps)"
  obtain s0 where s0: "secondaryEntryPoints s0 = []"
    "secondaryEntryPoints (prepare ps) = secondaryEntryPoints (writeFesm_all ?calls s0)"
    using prepare_writeFesm_all [of ps] by blast
  have "map fst ?calls = fesms2015 ps @ fesms5 ps"
    by (simp add: comp_def)
  then have "set (map fst ?calls) = set (fesms2015 ps @ fesms5 ps)"
    by (rule arg_cong)
  then have "fst ` set ?calls = set (fesms2015 ps @ fesms5 ps)"
    by (simp only: set_map)
  then show ?thesis
    using writeFesm_all_names [of ?calls s0] s0 by simp
qed

lemma for_each_names:
  assumes "\<forall>x s s'. body x s = Inr s' \<longrightarrow> secondaryEntryPoints s' = secondaryEntryPoints s"
    and "for_each body xs st = Inr st'"
  shows "secondaryEntryPoints st' = secondaryEntryPoints st"
  using assms(2)
proof (induction xs arbitrary: st)
  case Nil
  then show ?case by simp
next
  case (Cons x xs)
  then obtain s where s: "body x st = Inr s" "for_each body xs s = Inr st'"
    by (auto split: sum.splits)
  then show ?case
    using assms(1) Cons.IH [OF s(2)] by simp
qed

lemma package_names:
  assumes "package h ps = Inr st"
  shows "secondaryEntryPoints st = secondaryEntryPoints (prepare ps)"
proof -
  obtain st1 st2 st3 banner where p:
    "for_each (write_declaration h ps) (filter (filter_ext ''.d.ts'') (find_R h (binDir ps)))
       (prepare ps) = Inr st1"
    "for_each (write_source h ps) (srcs ps) st1 = Inr st2"
    "for_each (write_bundle_index_metadata h ps)
       (filter (filter_ext ''.bundle_index.metadata.json'') (find_R h (binDir ps))) st2 = Inr st3"
    "read_license h ps = Inr banner"
    "st = emit (concat (map (redirect_files ps banner) (secondaryEntryPoints st3))) st3"
    using package_phases [OF assms] by blast
  have 1: "\<forall>f s s'. write_declaration h ps f s = Inr s' \<longrightarrow>
      secondaryEntryPoints s' = secondaryEntryPoints s"
    using write_declaration_emits by fastforce
  have 2: "\<forall>f s s'. write_source h ps f s = Inr s' \<longrightarrow>
      secondaryEntryPoints s' = secondaryEntryPoints s"
    using write_source_emits by fastforce
  have 3: "\<forall>f s s'. write_bundle_index_metadata h ps f s = Inr s' \<longrightarrow>
      secondaryEntryPoints s' = secondaryEntryPoints s"
    using write_bundle_index_metadata_emits by fastforce
  show ?thesis
    using for_each_names [OF 1 p(1)] for_each_names [OF 2 p(2)] for_each_names [OF 3 p(3)] p(5)
    by simp
qed

lemma split_list_subset: "f \<in> set (split_list arg) \<Longrightarrow> set f \<subseteq> set arg"
  using js_split_char_subset [of f "CHR '',''" arg] by (simp add: split_list_def)

lemma read_args_one_line: "arg \<in> set (read_args raw) \<Longrightarrow> CHR ''\<newline>'' \<notin> set arg"
  using js_split_char_elements [of _ "CHR ''\<newline>''" raw]
  by (auto simp: read_args_def split: if_splits)

lemma destructure_one_line:
  assumes "destructure (read_args raw) = Inr ps" and "f \<in> set (fesms2015 ps @ fesms5 ps)"
  shows "CHR ''\<newline>'' \<notin> set f"
proof -
  from assms(1) obtain a0 a1 a2 a3 a4 a5 a6 a7 rest where
    a: "read_args raw = a0 # a1 # a2 # a3 # a4 # a5 # a6 # a7 # rest"
    by (auto simp: destructure_def split: list.splits)
  with assms(1) have p: "fesms2015 ps = split_list a4" "fesms5 ps = split_list a5"
    by (auto simp: destructure_def)
  have "a4 \<in> set (read_args raw)" "a5 \<in> set (read_args raw)"
    unfolding a by simp_all
  then have "CHR ''\<newline>'' \<notin> set a4" "CHR ''\<newline>'' \<notin> set a5"
    by (simp_all add: read_args_one_line)
  then show ?thesis
    using assms(2) p split_list_subset by fastforce
qed

lemma main_names_one_line:
  assumes "main h argv = Inr st" and "name \<in> set (secondaryEntryPoints st)"
  shows "CHR ''\<newline>'' \<notin> set (last (js_split ''/'' name))"
proof -
  from assms(1) obtain raw ps where r: "destructure (read_args raw) = Inr ps"
    "package h ps = Inr st"
    by (auto simp: main_def split: list.splits option.splits sum.splits)
  have "name \<in> set (secondaryEntryPoints (prepare ps))"
    using assms(2) package_names [OF r(2)] by simp
  then obtain f where f: "f \<in> set (fesms2015 ps @ fesms5 ps)" "name = entryPointNameOf f"
    using prepare_names [of ps] by blast
  have "CHR ''\<newline>'' \<notin> set f"
    by (rule destructure_one_line [OF r(1) f(1)])
  then have n: "CHR ''\<newline>'' \<notin> set name"
    using entryPointNameOf_subset [of f] f(2) by auto
  have "last (js_split ''/'' name) \<in> set (js_split ''/'' name)"
    by (rule last_in_set) (simp add: js_split_not_Nil)
  then have "set (last (js_split ''/'' name)) \<subseteq> set name"
    by (rule js_split_char_subset)
  with n show ?thesis by blast
qed

lemma main_package:
  assumes "main h argv = Inr st"
  obtains ps where "package h ps = Inr st"
  using assms by (auto simp: main_def split: list.splits option.splits sum.splits)

lemma redirects_written:
  assumes "package h ps = Inr st" and "name \<in> set (secondaryEntryPoints st)"
  shows "\<exists>licenseBanner. read_license h ps = Inr licenseBanner \<and>
           set (redirect_files ps licenseBanner name) \<subseteq> set (storage st)"
proof -
  obtain st3 banner where p:
    "read_license h ps = Inr banner"
    "st = emit (concat (map (redirect_files ps banner) (secondaryEntryPoints st3))) st3"
    using package_phases [OF assms(1)] by blast
  have "secondaryEntryPoints st = secondaryEntryPoints st3"
    unfolding p(2) by simp
  then have "name \<in> set (secondaryEntryPoints st3)"
    using assms(2) by simp
  then have "set (redirect_files ps banner name) \<subseteq> set (storage st)"
    unfolding p(2) by auto
  with p(1) show ?thesis by blast
qed

lemma redirect_basename:
  assumes "ext = ''.metadata.json'' \<or> ext = ''.d.ts''"
  shows "path_basename (path_join [outDir, dir, last (js_split ''/'' name) @ ext])
           = last (js_split ''/'' name) @ ext"
proof -
  let ?x = "last (js_split ''/'' name) @ ext"
  have x: "?x \<noteq> []" "?x \<noteq> ''.''" "?x \<noteq> ''..''" "CHR ''/'' \<notin> set ?x"
    using assms last_segment_no_slash [of name] by (auto simp: append_eq_Cons_conv)
  have "path_basename (path_join ([outDir, dir] @ [?x])) = ?x"
    by (rule path_basename_join [OF x])
  then show ?thesis by simp
qed

lemma redirect_run:
  \<open>package redirect_host redirect_params
   = Inr \<lparr>primaryEntryPoint = Some ''core'', secondaryEntryPoints = [''testing/foo''],
          storage =
            [Mkdir ''out'',
             Mkdir ''out/esm5'', Cp ''bin/core.js'' ''out/esm5'',
             Mv ''out/esm5/core.js'' ''out/esm5/core.js'',
             Mkdir ''out/esm5/testing'', Cp ''bin/testing__foo.js'' ''out/esm5/testing'',
             Mv ''out/esm5/testing/testing__foo.js'' ''out/esm5/testing/foo.js'',
             Mkdir ''out/bundles'',
             Mkdir ''out/testing/foo'',
             WriteFile ''out/testing/foo/foo.d.ts'' ''export declare const foo = 2;'',
             WriteFile ''out/testing/foo.metadata.json''
               ''{"__symbolic":"module","version":3,"metadata":{},"exports":[{"from":"./foo/foo"}],"flatModuleIndexRedirect":true}\<newline>'',
             WriteFile ''out/testing/foo.d.ts''
               ''/** @license MIT */\<newline> \<newline> export * from './foo/foo'\<newline>'']\<rparr>\<close>
  by code_simp

lemma redirect_main_run:
  \<open>main redirect_host [''ng_package.params'']
   = Inr \<lparr>primaryEntryPoint = Some ''core'', secondaryEntryPoints = [''testing/foo''],
          storage =
            [Mkdir ''out'',
             Mkdir ''out/esm5'', Cp ''bin/core.js'' ''out/esm5'',
             Mv ''out/esm5/core.js'' ''out/esm5/core.js'',
             Mkdir ''out/esm5/testing'', Cp ''bin/testing__foo.js'' ''out/esm5/testing'',
             Mv ''out/esm5/testing/testing__foo.js'' ''out/esm5/testing/foo.js'',
             Mkdir ''out/bundles'',
             Mkdir ''out/testing/foo'',
             WriteFile ''out/testing/foo/foo.d.ts'' ''export declare const foo = 2;'',
             WriteFile ''out/testing/foo.metadata.json''
               ''{"__symbolic":"module","version":3,"metadata":{},"exports":[{"from":"./foo/foo"}],"flatModuleIndexRedirect":true}\<newline>'',
             WriteFile ''out/testing/foo.d.ts''
               ''/** @license MIT */\<newline> \<newline> export * from './foo/foo'\<newline>'']\<rparr>\<close>
  by code_simp

lemma redirect_license:
  "read_license redirect_host redirect_params = Inr ''/** @license MIT */\<newline>''"
  by code_simp

lemma redirect_read_back:
  "reexport_lines ''/** @license MIT */\<newline>'' = [] \<and>
   reexport_lines ''/** @license MIT */\<newline> \<newline> export * from './foo/foo'\<newline>''
     = ['' export * from './foo/foo'' @ [CHR 0x27]]"
  by code_simp

text \<open>
  The redirect files are written without a directory being created for them. In the
  build output above the declaration file of the bundle index has brought
  \<open>out/testing\<close> into being; where no file of the entry point has been written below
  \<open>out\<close>, the first of the two writes fails and the run ends with its exception.
\<close>

lemma redirect_without_directory:
  "package fresh_host redirect_params = Inl StorageError"
  by code_simp

text \<open>
  Claim C9. In a run that ends without an exception, for every secondary entry point
  with last segment \<open>L\<close> and the other segments joined to \<open>dir\<close>, \<open>main\<close> writes
  \<open>path.join(out, dir, L + '.metadata.json')\<close> and \<open>path.join(out, dir, L + '.d.ts')\<close>,
  files with the base names \<open>L.metadata.json\<close> and \<open>L.d.ts\<close>. The first holds the JSON
  document of the claim on one line, followed by a newline, with the text \<open>./L/L\<close>
  quoted as JSON quotes a string (for an \<open>L\<close> that needs no escape this is \<open>"./L/L"\<close>
  letter for letter). The second holds the license banner and then a space, a newline
  and the re-export statement for \<open>./L/L\<close> on a line of its own: it has one re-export
  line more than the banner, so for a banner that holds no re-export statement, as a
  license text does, exactly one, which points to \<open>./L/L\<close>. This is for an \<open>L\<close>
  without a line feed, and in a run of \<open>main\<close> every entry point is such, as the
  parameter file is split into lines. For \<open>testing/foo\<close>, in a build output with a
  license file, the declaration file read back has exactly one re-export line, for
  \<open>./foo/foo\<close>.
\<close>

theorem redirect_files_content:
  \<open>(\<forall>st name. package h ps = Inr st \<and> name \<in> set (secondaryEntryPoints st) \<longrightarrow>
      (\<exists>licenseBanner. read_license h ps = Inr licenseBanner \<and>
         WriteFile (path_join [out ps, path_join (butlast (js_split ''/'' name)),
                               last (js_split ''/'' name) @ ''.metadata.json''])
           (redirect_metadata (last (js_split ''/'' name))) \<in> set (storage st) \<and>
         WriteFile (path_join [out ps, path_join (butlast (js_split ''/'' name)),
                               last (js_split ''/'' name) @ ''.d.ts''])
           (redirect_typings licenseBanner (last (js_split ''/'' name))) \<in> set (storage st) \<and>
         path_basename (path_join [out ps, path_join (butlast (js_split ''/'' name)),
                                   last (js_split ''/'' name) @ ''.metadata.json''])
           = last (js_split ''/'' name) @ ''.metadata.json'' \<and>
         path_basename (path_join [out ps, path_join (butlast (js_split ''/'' name)),
                                   last (js_split ''/'' name) @ ''.d.ts''])
           = last (js_split ''/'' name) @ ''.d.ts'')) \<and>
   redirect_metadata L =
     ''{"__symbolic":"module","version":3,"metadata":{},"exports":[{"from":''
     @ QuoteJSONString (''./'' @ L @ ''/'' @ L)
     @ ''}],"flatModuleIndexRedirect":true}'' @ ''\<newline>'' \<and>
   ((\<forall>c \<in> set L. quote_char c = [c]) \<longrightarrow>
      redirect_metadata L =
        ''{"__symbolic":"module","version":3,"metadata":{},"exports":[{"from":"./''
        @ L @ ''/'' @ L @ ''"}],"flatModuleIndexRedirect":true}'' @ ''\<newline>'') \<and>
   CHR ''\<newline>'' \<notin> set (butlast (redirect_metadata L)) \<and>
   redirect_typings banner L
     = banner @ '' '' @ ''\<newline>'' @ '' export * from './'' @ L @ ''/'' @ L @ [CHR 0x27] @ ''\<newline>'' \<and>
   (CHR ''\<newline>'' \<notin> set L \<longrightarrow>
      length (reexport_lines (redirect_typings banner L)) = length (reexport_lines banner) + 1) \<and>
   (CHR ''\<newline>'' \<notin> set L \<and> reexport_lines banner = [] \<longrightarrow>
      reexport_lines (redirect_typings banner L)
        = ['' export * from './'' @ L @ ''/'' @ L @ [CHR 0x27]]) \<and>
   (\<forall>argv st name. main h argv = Inr st \<and> name \<in> set (secondaryEntryPoints st) \<longrightarrow>
      (\<exists>ps licenseBanner. package h ps = Inr st \<and> read_license h ps = Inr licenseBanner \<and>
         WriteFile (path_join [out ps, path_join (butlast (js_split ''/'' name)),
                               last (js_split ''/'' name) @ ''.d.ts''])
           (redirect_typings licenseBanner (last (js_split ''/'' name))) \<in> set (storage st) \<and>
         length (reexport_lines (redirect_typings licenseBanner (last (js_split ''/'' name))))
           = length (reexport_lines licenseBanner) + 1 \<and>
         (reexport_lines licenseBanner = [] \<longrightarrow>
            reexport_lines (redirect_typings licenseBanner (last (js_split ''/'' name)))
              = ['' export * from './'' @ last (js_split ''/'' name) @ ''/''
                 @ last (js_split ''/'' name) @ [CHR 0x27]]))) \<and>
   package redirect_host redirect_params
     = Inr \<lparr>primaryEntryPoint = Some ''core'', secondaryEntryPoints = [''testing/foo''],
            storage =
              [Mkdir ''out'',
               Mkdir ''out/esm5'', Cp ''bin/core.js'' ''out/esm5'',
               Mv ''out/esm5/core.js'' ''out/esm5/core.js'',
               Mkdir ''out/esm5/testing'', Cp ''bin/testing__foo.js'' ''out/esm5/testing'',
               Mv ''out/esm5/testing/testing__foo.js'' ''out/esm5/testing/foo.js'',
               Mkdir ''out/bundles'',
               Mkdir ''out/testing/foo'',
               WriteFile ''out/testing/foo/foo.d.ts'' ''export declare const foo = 2;'',
               WriteFile ''out/testing/foo.metadata.json''
                 ''{"__symbolic":"module","version":3,"metadata":{},"exports":[{"from":"./foo/foo"}],"flatModuleIndexRedirect":true}\<newline>'',
               WriteFile ''out/testing/foo.d.ts''
                 ''/** @license MIT */\<newline> \<newline> export * from './foo/foo'\<newline>'']\<rparr> \<and>
   reexport_lines ''/** @license MIT */\<newline> \<newline> export * from './foo/foo'\<newline>''
     = ['' export * from './foo/foo'' @ [CHR 0x27]]\<close>
proof -
  have written: "\<forall>st name. package h ps = Inr st \<and> name \<in> set (secondaryEntryPoints st) \<longrightarrow>
      (\<exists>licenseBanner. read_license h ps = Inr licenseBanner \<and>
         WriteFile (path_join [out ps, path_join (butlast (js_split ''/'' name)),
                               last (js_split ''/'' name) @ ''.metadata.json''])
           (redirect_metadata (last (js_split ''/'' name))) \<in> set (storage st) \<and>
         WriteFile (path_join [out ps, path_join (butlast (js_split ''/'' name)),
                               last (js_split ''/'' name) @ ''.d.ts''])
           (redirect_typings licenseBanner (last (js_split ''/'' name))) \<in> set (storage st) \<and>
         path_basename (path_join [out ps, path_join (butlast (js_split ''/'' name)),
                                   last (js_split ''/'' name) @ ''.metadata.json''])
           = last (js_split ''/'' name) @ ''.metadata.json'' \<and>
         path_basename (path_join [out ps, path_join (butlast (js_split ''/'' name)),
                                   last (js_split ''/'' name) @ ''.d.ts''])
           = last (js_split ''/'' name) @ ''.d.ts'')"
  proof (intro allI impI)
    fix st name
    assume a: "package h ps = Inr st \<and> name \<in> set (secondaryEntryPoints st)"
    then obtain licenseBanner where b: "read_license h ps = Inr licenseBanner"
      "set (redirect_files ps licenseBanner name) \<subseteq> set (storage st)"
      using redirects_written by blast
    from b(2) have "WriteFile (path_join [out ps, path_join (butlast (js_split ''/'' name)),
                               last (js_split ''/'' name) @ ''.metadata.json''])
           (redirect_metadata (last (js_split ''/'' name))) \<in> set (storage st)"
      and "WriteFile (path_join [out ps, path_join (butlast (js_split ''/'' name)),
                               last (js_split ''/'' name) @ ''.d.ts''])
           (redirect_typings licenseBanner (last (js_split ''/'' name))) \<in> set (storage st)"
      by (simp_all add: redirect_files_def Let_def)
    with b(1) redirect_basename [of "''.metadata.json''" "out ps"
                 "path_join (butlast (js_split ''/'' name))" name]
      redirect_basename [of "''.d.ts''" "out ps" "path_join (butlast (js_split ''/'' name))" name]
    show "\<exists>licenseBanner. read_license h ps = Inr licenseBanner \<and>
         WriteFile (path_join [out ps, path_join (butlast (js_split ''/'' name)),
                               last (js_split ''/'' name) @ ''.metadata.json''])
           (redirect_metadata (last (js_split ''/'' name))) \<in> set (storage st) \<and>
         WriteFile (path_join [out ps, path_join (butlast (js_split ''/'' name)),
                               last (js_split ''/'' name) @ ''.d.ts''])
           (redirect_typings licenseBanner (last (js_split ''/'' name))) \<in> set (storage st) \<and>
         path_basename (path_join [out ps, path_join (butlast (js_split ''/'' name)),
                                   last (js_split ''/'' name) @ ''.metadata.json''])
           = last (js_split ''/'' name) @ ''.metadata.json'' \<and>
         path_basename (path_join [out ps, path_join (butlast (js_split ''/'' name)),
                                   last (js_split ''/'' name) @ ''.d.ts''])
           = last (js_split ''/'' name) @ ''.d.ts''"
      by blast
  qed
  have plain: \<open>(\<forall>c \<in> set L. quote_char c = [c]) \<longrightarrow>
      redirect_metadata L =
        ''{"__symbolic":"module","version":3,"metadata":{},"exports":[{"from":"./''
        @ L @ ''/'' @ L @ ''"}],"flatModuleIndexRedirect":true}'' @ ''\<newline>''\<close>
  proof
    assume "\<forall>c \<in> set L. quote_char c = [c]"
    then have "\<forall>c \<in> set (''./'' @ L @ ''/'' @ L). quote_char c = [c]"
      by (auto simp: quote_char_def)
    then have "QuoteJSONString (''./'' @ L @ ''/'' @ L) = CHR 0x22 # (''./'' @ L @ ''/'' @ L) @ [CHR 0x22]"
      by (rule QuoteJSONString_plain)
    then show \<open>redirect_metadata L =
        ''{"__symbolic":"module","version":3,"metadata":{},"exports":[{"from":"./''
        @ L @ ''/'' @ L @ ''"}],"flatModuleIndexRedirect":true}'' @ ''\<newline>''\<close>
      unfolding redirect_metadata_text by simp
  qed
  have typings: "redirect_typings banner L
     = banner @ '' '' @ ''\<newline>'' @ '' export * from './'' @ L @ ''/'' @ L @ [CHR 0x27] @ ''\<newline>''"
    by (simp add: redirect_typings_def)
  have count: "CHR ''\<newline>'' \<notin> set L \<longrightarrow>
      length (reexport_lines (redirect_typings banner L)) = length (reexport_lines banner) + 1"
    using redirect_typings_count by blast
  have one: "CHR ''\<newline>'' \<notin> set L \<and> reexport_lines banner = [] \<longrightarrow>
      reexport_lines (redirect_typings banner L)
        = ['' export * from './'' @ L @ ''/'' @ L @ [CHR 0x27]]"
    using redirect_typings_reexports by blast
  have run: "\<forall>argv st name. main h argv = Inr st \<and> name \<in> set (secondaryEntryPoints st) \<longrightarrow>
      (\<exists>ps licenseBanner. package h ps = Inr st \<and> read_license h ps = Inr licenseBanner \<and>
         WriteFile (path_join [out ps, path_join (butlast (js_split ''/'' name)),
                               last (js_split ''/'' name) @ ''.d.ts''])
           (redirect_typings licenseBanner (last (js_split ''/'' name))) \<in> set (storage st) \<and>
         length (reexport_lines (redirect_typings licenseBanner (last (js_split ''/'' name))))
           = length (reexport_lines licenseBanner) + 1 \<and>
         (reexport_lines licenseBanner = [] \<longrightarrow>
            reexport_lines (redirect_typings licenseBanner (last (js_split ''/'' name)))
              = ['' export * from './'' @ last (js_split ''/'' name) @ ''/''
                 @ last (js_split ''/'' name) @ [CHR 0x27]]))"
  proof (intro allI impI)
    fix argv st name
    assume a: "main h argv = Inr st \<and> name \<in> set (secondaryEntryPoints st)"
    then obtain ps where ps: "package h ps = Inr st"
      using main_package by blast
    obtain licenseBanner where b: "read_license h ps = Inr licenseBanner"
      "set (redirect_files ps licenseBanner name) \<subseteq> set (storage st)"
      using redirects_written [OF ps] a by blast
    have w: "WriteFile (path_join [out ps, path_join (butlast (js_split ''/'' name)),
                               last (js_split ''/'' name) @ ''.d.ts''])
           (redirect_typings licenseBanner (last (js_split ''/'' name))) \<in> set (storage st)"
      using b(2) by (simp add: redirect_files_def Let_def)
    have l: "CHR ''\<newline>'' \<notin> set (last (js_split ''/'' name))"
      using main_names_one_line a by blast
    show "\<exists>ps licenseBanner. package h ps = Inr st \<and> read_license h ps = Inr licenseBanner \<and>
         WriteFile (path_join [out ps, path_join (butlast (js_split ''/'' name)),
                               last (js_split ''/'' name) @ ''.d.ts''])
           (redirect_typings licenseBanner (last (js_split ''/'' name))) \<in> set (storage st) \<and>
         length (reexport_lines (redirect_typings licenseBanner (last (js_split ''/'' name))))
           = length (reexport_lines licenseBanner) + 1 \<and>
         (reexport_lines licenseBanner = [] \<longrightarrow>
            reexport_lines (redirect_typings licenseBanner (last (js_split ''/'' name)))
              = ['' export * from './'' @ last (js_split ''/'' name) @ ''/''
                 @ last (js_split ''/'' name) @ [CHR 0x27]])"
      using ps b(1) w redirect_typings_count [OF l, of licenseBanner]
        redirect_typings_reexports [OF l, of licenseBanner]
      by blast
  qed
  from written redirect_metadata_text [of L] plain redirect_metadata_one_line [of L] typings
    count one run redirect_run redirect_read_back
  show ?thesis by (intro conjI) blast+
qed

theorem redirect_files_content_witness:
  \<open>(\<exists>st. main redirect_host [''ng_package.params''] = Inr st \<and>
         package redirect_host redirect_params = Inr st \<and>
         ''testing/foo'' \<in> set (secondaryEntryPoints st) \<and>
         WriteFile ''out/testing/foo.metadata.json''
           ''{"__symbolic":"module","version":3,"metadata":{},"exports":[{"from":"./foo/foo"}],"flatModuleIndexRedirect":true}\<newline>''
           \<in> set (storage st) \<and>
         WriteFile ''out/testing/foo.d.ts''
           ''/** @license MIT */\<newline> \<newline> export * from './foo/foo'\<newline>''
           \<in> set (storage st)) \<and>
   read_license redirect_host redirect_params = Inr ''/** @license MIT */\<newline>'' \<and>
   reexport_lines ''/** @license MIT */\<newline>'' = [] \<and>
   reexport_lines (redirect_typings ''/** @license MIT */\<newline>'' ''foo'')
     = ['' export * from './foo/foo'' @ [CHR 0x27]]\<close>
  using redirect_files_content
          [of redirect_host redirect_params "''foo''" "''/** @license MIT */\<newline>''"]
        redirect_main_run redirect_license redirect_read_back
  by (simp add: redirect_typings_def)

end
